theory Spec2Isabelle
  imports Complex_Main "HOL-Library.Product_Lexorder" "HOL-Library.Multiset"
begin

section \<open>Python values and errors\<close>

text \<open>
  Exceptions of the Python source are values: a function that can raise returns
  \<open>error + 'a\<close>, with \<open>Inl\<close> for the exception.
\<close>

datatype error = KeyError | ValueError | IndexError | OverflowError

section \<open>AutoSummary.py: month tables and the schedule-relative window\<close>

definition MONTHS_FULL :: "string list" where
  "MONTHS_FULL =
     [''January'', ''February'', ''March'', ''April'', ''May'', ''June'',
      ''July'', ''August'', ''September'', ''October'', ''November'', ''December'']"

text \<open>\<^verbatim>\<open>MONTH_TO_NUM = {m: i+1 for i, m in enumerate(MONTHS_FULL)}\<close>\<close>

definition MONTH_TO_NUM :: "string \<rightharpoonup> nat" where
  "MONTH_TO_NUM = map_of (map (\<lambda>(i, m). (m, i + 1)) (enumerate 0 MONTHS_FULL))"

text \<open>\<^verbatim>\<open>NUM_TO_MONTH = {i+1: m for i, m in enumerate(MONTHS_FULL)}\<close>\<close>

definition NUM_TO_MONTH :: "nat \<rightharpoonup> string" where
  "NUM_TO_MONTH = map_of (map (\<lambda>(i, m). (i + 1, m)) (enumerate 0 MONTHS_FULL))"

text \<open>
  The \<^verbatim>\<open>while True\<close> loop of \<^verbatim>\<open>months_between_inclusive\<close>, with the list
  \<^verbatim>\<open>out\<close> passed along. The loop has no bound of its own, so it is a partial
  function: \<open>None\<close> is "does not return", \<open>Some (Inl KeyError)\<close> is the failed
  dictionary lookup \<^verbatim>\<open>NUM_TO_MONTH[i]\<close>.
\<close>

partial_function (option) months_loop ::
  "nat \<Rightarrow> nat \<Rightarrow> string list \<Rightarrow> (error + string list) option" where
  "months_loop i endm out =
     (case NUM_TO_MONTH i of
        None \<Rightarrow> Some (Inl KeyError)
      | Some name \<Rightarrow>
          if i = endm then Some (Inr (out @ [name]))
          else months_loop (if i = 12 then 1 else i + 1) endm (out @ [name]))"

definition months_between_inclusive ::
  "string \<Rightarrow> string \<Rightarrow> (error + string list) option" where
  "months_between_inclusive prev_month curr_month =
     (case MONTH_TO_NUM prev_month of
        None \<Rightarrow> Some (Inl KeyError)
      | Some start \<Rightarrow>
          (case MONTH_TO_NUM curr_month of
             None \<Rightarrow> Some (Inl KeyError)
           | Some endm \<Rightarrow> months_loop start endm []))"

text \<open>
  \<^verbatim>\<open>visit_list.index(current_month)\<close>: the position of the first occurrence, or
  \<open>None\<close> for the \<^verbatim>\<open>ValueError\<close> that \<^verbatim>\<open>previous_visit_month\<close> catches.
\<close>

fun list_index :: "'a list \<Rightarrow> 'a \<Rightarrow> nat option" where
  "list_index [] x = None"
| "list_index (y # ys) x =
     (if y = x then Some 0 else map_option Suc (list_index ys x))"

definition previous_visit_month :: "string list \<Rightarrow> string \<Rightarrow> string option" where
  "previous_visit_month visit_list current_month =
     (case list_index visit_list current_month of
        None \<Rightarrow> None
      | Some idx \<Rightarrow>
          Some (if idx > 0 then visit_list ! (idx - 1) else last visit_list))"

text \<open>
  The span of \<^verbatim>\<open>run_summary\<close> (previous visit to selected month, inclusive).
  \<^verbatim>\<open>if prev_visit:\<close> is Python truthiness: \<open>None\<close> and the empty string both
  take the \<^verbatim>\<open>else\<close> branch.
\<close>

definition span_months :: "string list \<Rightarrow> string \<Rightarrow> (error + string list) option" where
  "span_months visits picked_month_name =
     (case previous_visit_month visits picked_month_name of
        None \<Rightarrow> Some (Inr [picked_month_name])
      | Some prev_visit \<Rightarrow>
          if prev_visit \<noteq> [] then months_between_inclusive prev_visit picked_month_name
          else Some (Inr [picked_month_name]))"

text \<open>
  The calendar walk in the words of the specification: starting at month number \<open>s\<close>,
  one entry per calendar month up to and including month number \<open>e\<close>, December being
  followed by January.
\<close>

definition calendar_walk :: "nat \<Rightarrow> nat \<Rightarrow> nat list" where
  "calendar_walk s e = map (\<lambda>k. (s - 1 + k) mod 12 + 1) [0 ..< (e + 12 - s) mod 12 + 1]"

definition month_name :: "nat \<Rightarrow> string" where
  "month_name n = MONTHS_FULL ! (n - 1)"

text \<open>\<open>monthNumber(name)\<close> of the specification: the position in the calendar, from 1.\<close>

definition month_number :: "string \<Rightarrow> nat" where
  "month_number m = (case list_index MONTHS_FULL m of None \<Rightarrow> 0 | Some i \<Rightarrow> i + 1)"

section \<open>Python strings\<close>

text \<open>
  Strings are lists of 8-bit characters; the string methods are modelled on ASCII, which
  is where the keywords and labels of the source live. \<^verbatim>\<open>str.lower\<close> maps \<open>A\<close>..\<open>Z\<close> to
  \<open>a\<close>..\<open>z\<close> and leaves every other character alone.
\<close>

definition lower_char :: "char \<Rightarrow> char" where
  "lower_char c =
     (case map_of (zip ''ABCDEFGHIJKLMNOPQRSTUVWXYZ'' ''abcdefghijklmnopqrstuvwxyz'') c of
        None \<Rightarrow> c
      | Some l \<Rightarrow> l)"

definition upper_char :: "char \<Rightarrow> char" where
  "upper_char c =
     (case map_of (zip ''abcdefghijklmnopqrstuvwxyz'' ''ABCDEFGHIJKLMNOPQRSTUVWXYZ'') c of
        None \<Rightarrow> c
      | Some u \<Rightarrow> u)"

definition lower :: "string \<Rightarrow> string" where
  "lower s = map lower_char s"

text \<open>The ASCII characters for which \<^verbatim>\<open>str.isspace\<close> holds; \<^verbatim>\<open>str.strip()\<close> removes them.\<close>

definition is_space :: "char \<Rightarrow> bool" where
  "is_space c \<longleftrightarrow>
     c \<in> set [CHR '' '', CHR 0x09, CHR 0x0A, CHR 0x0B, CHR 0x0C, CHR 0x0D,
              CHR 0x1C, CHR 0x1D, CHR 0x1E, CHR 0x1F]"

definition strip :: "string \<Rightarrow> string" where
  "strip s = rev (dropWhile is_space (rev (dropWhile is_space s)))"

definition is_digit :: "char \<Rightarrow> bool" where
  "is_digit c \<longleftrightarrow> c \<in> set ''0123456789''"

definition is_lower_alpha :: "char \<Rightarrow> bool" where
  "is_lower_alpha c \<longleftrightarrow> c \<in> set ''abcdefghijklmnopqrstuvwxyz''"

definition is_alpha :: "char \<Rightarrow> bool" where
  "is_alpha c \<longleftrightarrow> is_lower_alpha (lower_char c)"

text \<open>\<^verbatim>\<open>str.isdigit\<close>: non-empty and all digits.\<close>

definition isdigit :: "string \<Rightarrow> bool" where
  "isdigit s \<longleftrightarrow> s \<noteq> [] \<and> list_all is_digit s"

text \<open>\<^verbatim>\<open>sub in s\<close> on strings: \<open>sub\<close> occurs in \<open>s\<close> as a contiguous run.\<close>

fun starts_with :: "string \<Rightarrow> string \<Rightarrow> bool" where
  "starts_with s [] = True"
| "starts_with [] (k # ks) = False"
| "starts_with (c # s) (k # ks) = (c = k \<and> starts_with s ks)"

fun str_contains :: "string \<Rightarrow> string \<Rightarrow> bool" where
  "str_contains [] sub = (sub = [])"
| "str_contains (c # s) sub = (starts_with (c # s) sub \<or> str_contains s sub)"

text \<open>\<^verbatim>\<open>s.split(",")\<close>: always at least one field; empty fields are kept.\<close>

fun split_comma :: "string \<Rightarrow> string list" where
  "split_comma [] = [[]]"
| "split_comma (c # cs) =
     (if c = CHR '','' then [] # split_comma cs
      else (case split_comma cs of
              [] \<Rightarrow> [[c]]
            | w # ws \<Rightarrow> (c # w) # ws))"

text \<open>\<^verbatim>\<open>sep.join(xs)\<close>.\<close>

fun join :: "string \<Rightarrow> string list \<Rightarrow> string" where
  "join sep [] = []"
| "join sep [x] = x"
| "join sep (x # y # ys) = x @ sep @ join sep (y # ys)"

text \<open>The value of a run of decimal digits, and \<^verbatim>\<open>str(n)\<close> for an integer.\<close>

definition digit_val :: "char \<Rightarrow> nat" where
  "digit_val c = (case list_index ''0123456789'' c of None \<Rightarrow> 0 | Some d \<Rightarrow> d)"

definition digits_val :: "string \<Rightarrow> nat" where
  "digits_val s = foldl (\<lambda>a c. 10 * a + digit_val c) 0 s"

definition digit_char :: "nat \<Rightarrow> char" where
  "digit_char d = ''0123456789'' ! d"

fun str_nat :: "nat \<Rightarrow> string" where
  "str_nat n = (if n < 10 then [digit_char n] else str_nat (n div 10) @ [digit_char (n mod 10)])"

declare str_nat.simps [simp del]

definition str_int :: "int \<Rightarrow> string" where
  "str_int i = (if i < 0 then CHR ''-'' # str_nat (nat (- i)) else str_nat (nat i))"

text \<open>
  \<^verbatim>\<open>int(x)\<close> on a string: surrounding whitespace is ignored, an optional sign is
  followed by decimal digits, single underscores may separate digits; anything else is
  a \<^verbatim>\<open>ValueError\<close> (\<open>None\<close>).
\<close>

fun underscores_ok :: "string \<Rightarrow> bool" where
  "underscores_ok [] = True"
| "underscores_ok [c] = is_digit c"
| "underscores_ok (c # d # cs) =
     (if c = CHR ''_'' then is_digit d \<and> underscores_ok (d # cs)
      else is_digit c \<and> underscores_ok (d # cs))"

definition py_int_digits :: "string \<Rightarrow> nat option" where
  "py_int_digits s =
     (if s \<noteq> [] \<and> is_digit (hd s) \<and> underscores_ok s
      then Some (digits_val (filter is_digit s)) else None)"

definition py_int :: "string \<Rightarrow> int option" where
  "py_int x =
     (case strip x of
        [] \<Rightarrow> None
      | c # cs \<Rightarrow>
          if c = CHR ''-'' then map_option (\<lambda>n. - int n) (py_int_digits cs)
          else if c = CHR ''+'' then map_option int (py_int_digits cs)
          else map_option int (py_int_digits (c # cs)))"

text \<open>
  \<^verbatim>\<open>str.title()\<close>: the first letter of every run of letters in upper case, the other
  letters in lower case. The flag says whether the previous character was a letter.
\<close>

fun title_from :: "bool \<Rightarrow> string \<Rightarrow> string" where
  "title_from prev [] = []"
| "title_from prev (c # cs) =
     (if is_alpha c then (if prev then lower_char c else upper_char c) # title_from True cs
      else c # title_from False cs)"

definition title :: "string \<Rightarrow> string" where
  "title s = title_from False s"

text \<open>
  \<^verbatim>\<open>xs[i]\<close> on a list: a negative index counts from the end, an index out of range
  raises \<^verbatim>\<open>IndexError\<close>.
\<close>

definition py_nth :: "'a list \<Rightarrow> int \<Rightarrow> error + 'a" where
  "py_nth xs i =
     (if 0 \<le> i \<and> i < int (length xs) then Inr (xs ! nat i)
      else if i < 0 \<and> - i \<le> int (length xs) then Inr (xs ! nat (int (length xs) + i))
      else Inl IndexError)"

text \<open>\<^verbatim>\<open>s[-2:]\<close>: the last two characters, or all of a shorter string.\<close>

definition last_two :: "string \<Rightarrow> string" where
  "last_two s = drop (length s - 2) s"

section \<open>Dates, cells and worksheets\<close>

text \<open>
  A naive \<^verbatim>\<open>datetime\<close> with its seven fields. Python orders naive datetimes field by
  field, which is the lexicographic order of \<open>dt_key\<close>.
\<close>

datatype datetime =
  DateTime (dt_year: int) (dt_month: int) (dt_day: int)
           (dt_hour: int) (dt_minute: int) (dt_second: int) (dt_micro: int)

datatype pydate = Date int int int

datatype pytime = Time int int int int

definition dt_key :: "datetime \<Rightarrow> int \<times> int \<times> int \<times> int \<times> int \<times> int \<times> int" where
  "dt_key d =
     (dt_year d, dt_month d, dt_day d, dt_hour d, dt_minute d, dt_second d, dt_micro d)"

definition dt_le :: "datetime \<Rightarrow> datetime \<Rightarrow> bool" where
  "dt_le a b \<longleftrightarrow> dt_key a \<le> dt_key b"

definition is_leap :: "int \<Rightarrow> bool" where
  "is_leap y \<longleftrightarrow> y mod 4 = 0 \<and> (y mod 100 \<noteq> 0 \<or> y mod 400 = 0)"

definition days_in_month :: "int \<Rightarrow> int \<Rightarrow> int" where
  "days_in_month y m =
     (if m = 2 then (if is_leap y then 29 else 28)
      else if m \<in> {4, 6, 9, 11} then 30 else 31)"

text \<open>
  \<^verbatim>\<open>datetime(year, month, day)\<close>: midnight of that day, \<^verbatim>\<open>ValueError\<close> outside
  the years 1..9999, the months 1..12 or the days of the month.
\<close>

definition mk_datetime :: "int \<Rightarrow> int \<Rightarrow> int \<Rightarrow> error + datetime" where
  "mk_datetime y m d =
     (if 1 \<le> y \<and> y \<le> 9999 \<and> 1 \<le> m \<and> m \<le> 12 \<and> 1 \<le> d \<and> d \<le> days_in_month y m
      then Inr (DateTime y m d 0 0 0 0) else Inl ValueError)"

text \<open>\<^verbatim>\<open>dt - timedelta(days=1)\<close>: the same time on the previous calendar day.\<close>

definition minus_one_day :: "datetime \<Rightarrow> error + datetime" where
  "minus_one_day t =
     (case t of DateTime y m d hh mi ss us \<Rightarrow>
        if d > 1 then Inr (DateTime y m (d - 1) hh mi ss us)
        else if m > 1 then Inr (DateTime y (m - 1) (days_in_month y (m - 1)) hh mi ss us)
        else if y > 1 then Inr (DateTime (y - 1) 12 31 hh mi ss us)
        else Inl OverflowError)"

text \<open>
  The value of a worksheet cell as openpyxl hands it over. A Python float is modelled
  by the real number it denotes (NaN and the infinities are left out), so comparing two
  floats is comparing two reals; the arithmetic on floats, which rounds, is taken from
  the library below. \<open>COther\<close> stands for any other object.
\<close>

datatype cell =
  CNone | CStr string | CBool bool | CInt int | CFloat real
| CDateTime datetime | CDate pydate | CTime pytime | COther

text \<open>What \<^verbatim>\<open>from_excel\<close> can return.\<close>

datatype converted = ConvTime pytime | ConvDate pydate | ConvDateTime datetime

text \<open>
  The library calls the source makes and whose code is not part of the repository, as
  parameters: \<^verbatim>\<open>datetime.strptime(s, fmt)\<close>; openpyxl's
  \<^verbatim>\<open>from_excel(val, CALENDAR_WINDOWS_1900)\<close>; \<^verbatim>\<open>dt + timedelta(days=float(val))\<close>;
  \<^verbatim>\<open>str(v)\<close> of a value that is neither a string nor \<^verbatim>\<open>None\<close>; \<^verbatim>\<open>float(s)\<close> of a
  string; and the arithmetic on floats with its rounding: \<^verbatim>\<open>sum(values)\<close> of a list of
  floats, the product and the quotient of two floats. \<open>None\<close> is "raises".
\<close>

record pylib =
  strptime :: "string \<Rightarrow> string \<Rightarrow> datetime option"
  from_excel :: "real \<Rightarrow> converted option"
  add_days :: "datetime \<Rightarrow> real \<Rightarrow> datetime option"
  str_of :: "cell \<Rightarrow> string"
  float_of_str :: "string \<Rightarrow> real option"
  fl_sum :: "real list \<Rightarrow> real"
  fl_mul :: "real \<Rightarrow> real \<Rightarrow> real"
  fl_div :: "real \<Rightarrow> real \<Rightarrow> real"

text \<open>
  A worksheet: its bounds and the value of every cell (\<open>CNone\<close> where nothing is
  stored). Rows and columns count from 1. Reading a cell beyond the bounds makes
  openpyxl create an empty cell; such a cell reads \<open>CNone\<close> here as well, and the rows
  it adds hold no date.
\<close>

record worksheet =
  max_row :: nat
  max_column :: nat
  cell_value :: "nat \<Rightarrow> nat \<Rightarrow> cell"

text \<open>\<^verbatim>\<open>isinstance(v, (int, float))\<close> with the number; a Python \<^verbatim>\<open>bool\<close> is an \<^verbatim>\<open>int\<close>.\<close>

definition num_value :: "cell \<Rightarrow> real option" where
  "num_value v =
     (case v of
        CBool b \<Rightarrow> Some (if b then 1 else 0)
      | CInt i \<Rightarrow> Some (of_int i)
      | CFloat x \<Rightarrow> Some x
      | _ \<Rightarrow> None)"

text \<open>\<^verbatim>\<open>float(v)\<close>, \<open>None\<close> for the exception the callers catch.\<close>

definition py_float :: "pylib \<Rightarrow> cell \<Rightarrow> real option" where
  "py_float lib v =
     (case v of
        CStr s \<Rightarrow> float_of_str lib s
      | _ \<Rightarrow> num_value v)"

section \<open>SGSData.py\<close>

definition DATE_PARSE_FORMATS :: "string list" where
  "DATE_PARSE_FORMATS =
     [''%d-%b-%Y'', ''%d-%b-%y'', ''%Y-%m-%d'', ''%b %d, %Y'', ''%B %d, %Y'',
      ''%d/%m/%Y'', ''%m/%d/%Y'']"

definition PARAM_KEYS :: "string list" where
  "PARAM_KEYS =
     [''cbod'', ''cbod5'', ''tss'', ''tp'', ''tan'', ''tkn'', ''no3'', ''no2'', ''tn'',
      ''bod'', ''bod5'']"

definition GROUP1_KEYS :: "string list" where
  "GROUP1_KEYS = [''cbod5'', ''bod5'', ''tss'', ''cbod'', ''bod'']"

definition GROUP2_KEYS :: "string list" where
  "GROUP2_KEYS = [''tkn'', ''tan'', ''no2'', ''no3'', ''tn'']"

definition EXCLUDE_HDR_WORDS :: "string list" where
  "EXCLUDE_HDR_WORDS =
     [''units'', ''objective'', ''limit'', ''average'', ''median'', ''cofa'', ''eca'']"

definition ym_add :: "int \<Rightarrow> int \<Rightarrow> int \<Rightarrow> int \<times> int" where
  "ym_add year month delta =
     (year + (month - 1 + delta) div 12, (month - 1 + delta) mod 12 + 1)"

definition month_start :: "int \<Rightarrow> int \<Rightarrow> error + datetime" where
  "month_start year month = mk_datetime year month 1"

definition month_end :: "int \<Rightarrow> int \<Rightarrow> error + datetime" where
  "month_end year month =
     (case ym_add year month 1 of (ny, nm) \<Rightarrow>
        (case mk_datetime ny nm 1 of
           Inl e \<Rightarrow> Inl e
         | Inr d \<Rightarrow> minus_one_day d))"

text \<open>The loop over \<^verbatim>\<open>DATE_PARSE_FORMATS\<close>: the first format that parses wins.\<close>

fun first_parse :: "pylib \<Rightarrow> string \<Rightarrow> string list \<Rightarrow> datetime option" where
  "first_parse lib s [] = None"
| "first_parse lib s (fmt # fmts) =
     (case strptime lib s fmt of
        Some d \<Rightarrow> Some d
      | None \<Rightarrow> first_parse lib s fmts)"

definition NON_DATE_LABELS :: "string list" where
  "NON_DATE_LABELS =
     [''units'', ''average'', ''median'', ''cofa objective'', ''eca objective'',
      ''cofa limit'', ''eca limit'']"

definition excel_epoch :: datetime where
  "excel_epoch = DateTime 1899 12 30 0 0 0 0"

text \<open>
  The numeric branch of \<^verbatim>\<open>parse_date_cell\<close>: \<^verbatim>\<open>from_excel\<close>, on an exception the
  epoch plus the value in days, on a second exception no date; a time of day is no
  date, a date becomes midnight of that day.
\<close>

definition parse_serial :: "pylib \<Rightarrow> real \<Rightarrow> datetime option" where
  "parse_serial lib x =
     (case (case from_excel lib x of
              Some c \<Rightarrow> Some c
            | None \<Rightarrow> map_option ConvDateTime (add_days lib excel_epoch x)) of
        None \<Rightarrow> None
      | Some (ConvTime t) \<Rightarrow> None
      | Some (ConvDate (Date y m d)) \<Rightarrow> Some (DateTime y m d 0 0 0 0)
      | Some (ConvDateTime d) \<Rightarrow> Some d)"

definition parse_date_cell :: "pylib \<Rightarrow> cell \<Rightarrow> datetime option" where
  "parse_date_cell lib val =
     (case val of
        CDateTime d \<Rightarrow> Some d
      | CNone \<Rightarrow> None
      | CStr v \<Rightarrow>
          if strip v = [] then None
          else (let s = strip v
                in if lower s \<in> set NON_DATE_LABELS then None
                   else first_parse lib s DATE_PARSE_FORMATS)
      | CBool b \<Rightarrow> parse_serial lib (if b then 1 else 0)
      | CInt i \<Rightarrow> parse_serial lib (of_int i)
      | CFloat x \<Rightarrow> parse_serial lib x
      | CTime t \<Rightarrow> None
      | CDate (Date y m d) \<Rightarrow> Some (DateTime y m d 0 0 0 0)
      | COther \<Rightarrow> None)"

text \<open>\<^verbatim>\<open>text(ws, r, c)\<close>: the cell as a stripped string, empty for \<^verbatim>\<open>None\<close>.\<close>

definition text_of :: "pylib \<Rightarrow> worksheet \<Rightarrow> nat \<Rightarrow> nat \<Rightarrow> string" where
  "text_of lib ws r c =
     strip (case cell_value ws r c of
              CNone \<Rightarrow> []
            | CStr s \<Rightarrow> s
            | v \<Rightarrow> str_of lib v)"

text \<open>\<^verbatim>\<open>re.sub(r"[^a-z0-9]+", "", s)\<close>: only lower-case letters and digits stay.\<close>

definition alnum_only :: "string \<Rightarrow> string" where
  "alnum_only s = filter (\<lambda>c. is_lower_alpha c \<or> is_digit c) s"

text \<open>\<^verbatim>\<open>any(key in s for key in keys)\<close>.\<close>

definition any_key_in :: "string list \<Rightarrow> string \<Rightarrow> bool" where
  "any_key_in keys s = list_ex (\<lambda>key. str_contains s key) keys"

text \<open>The test of the inner loop of \<^verbatim>\<open>find_param_header_row\<close> on one cell.\<close>

definition param_cell :: "pylib \<Rightarrow> worksheet \<Rightarrow> nat \<Rightarrow> nat \<Rightarrow> bool" where
  "param_cell lib ws r c =
     (let s = lower (text_of lib ws r c)
      in s \<noteq> [] \<and> any_key_in PARAM_KEYS (alnum_only s))"

definition row_hits :: "pylib \<Rightarrow> worksheet \<Rightarrow> nat \<Rightarrow> nat \<Rightarrow> nat" where
  "row_hits lib ws max_c r = length (filter (param_cell lib ws r) [1 ..< max_c + 1])"

definition find_param_header_row :: "pylib \<Rightarrow> worksheet \<Rightarrow> nat option" where
  "find_param_header_row lib ws =
     (let max_r = min (max_row ws) 80; max_c = min (max_column ws) 80
      in find (\<lambda>r. row_hits lib ws max_c r \<ge> 2) [1 ..< max_r + 1])"

definition date_score :: "pylib \<Rightarrow> worksheet \<Rightarrow> nat \<Rightarrow> nat \<Rightarrow> nat" where
  "date_score lib ws N c =
     length (filter (\<lambda>r. parse_date_cell lib (cell_value ws r c) \<noteq> None) [1 ..< N + 1])"

text \<open>One round of the fallback loop of \<^verbatim>\<open>find_date_column\<close> on \<open>(best_col, best_score)\<close>.\<close>

definition best_step ::
  "pylib \<Rightarrow> worksheet \<Rightarrow> nat \<Rightarrow> nat option \<times> int \<Rightarrow> nat \<Rightarrow> nat option \<times> int" where
  "best_step lib ws N best c =
     (let score = int (date_score lib ws N c)
      in if score > snd best then (Some c, score) else best)"

definition find_date_column :: "pylib \<Rightarrow> worksheet \<Rightarrow> nat option" where
  "find_date_column lib ws =
     (let max_r = min (max_row ws) 60; max_c = min (max_column ws) 60
      in case find (\<lambda>(r, c). str_contains (lower (text_of lib ws r c)) ''date'')
                (concat (map (\<lambda>r. map (\<lambda>c. (r, c)) [1 ..< max_c + 1]) [1 ..< max_r + 1])) of
           Some (r, c) \<Rightarrow> Some c
         | None \<Rightarrow>
             (let N = min (max_row ws) 40
              in fst (foldl (best_step lib ws N) (None, - 1) [1 ..< max_c + 1])))"

text \<open>
  \<^verbatim>\<open>plot_series_to_doc\<close>: what is drawn, \<open>None\<close> when the function returns without a
  chart. A Python \<^verbatim>\<open>dict\<close> is an association list in insertion order; storing under a
  key that is present replaces the value in place. \<^verbatim>\<open>list.sort\<close> is stable, as
  \<open>sort_key\<close> is.
\<close>

fun dict_set :: "'k \<Rightarrow> 'v \<Rightarrow> ('k \<times> 'v) list \<Rightarrow> ('k \<times> 'v) list" where
  "dict_set k v [] = [(k, v)]"
| "dict_set k v (p # ps) = (if fst p = k then (k, v) # ps else p # dict_set k v ps)"

type_synonym series = "(string \<times> (datetime \<times> real) list) list"

definition clean_step :: "series \<Rightarrow> string \<times> (datetime \<times> real) list \<Rightarrow> series" where
  "clean_step clean kp =
     (case kp of (k, pts) \<Rightarrow>
        (let pts' = sort_key (\<lambda>x. dt_key (fst x)) pts
         in if pts' \<noteq> [] then dict_set k pts' clean else clean))"

definition plot_series_to_doc :: "series \<Rightarrow> series option" where
  "plot_series_to_doc series =
     (if series = [] then None
      else (let clean = foldl clean_step [] series
            in if clean = [] then None else Some clean))"

subsection \<open>The per-sheet workflow\<close>

definition META_WORDS :: "string list" where
  "META_WORDS = [''units'', ''cofa'', ''eca'', ''objective'', ''limit'']"

definition meta_row :: "pylib \<Rightarrow> worksheet \<Rightarrow> nat \<Rightarrow> bool" where
  "meta_row lib ws r =
     (let row_text = join '' '' (map (\<lambda>c. lower (text_of lib ws r c)) [1 ..< max_column ws + 1])
      in any_key_in META_WORDS row_text)"

definition skip_meta :: "pylib \<Rightarrow> worksheet \<Rightarrow> nat \<Rightarrow> nat" where
  "skip_meta lib ws start_row = (if meta_row lib ws start_row then start_row + 1 else start_row)"

text \<open>\<^verbatim>\<open>start_row\<close> after the two rounds of the meta-row loop.\<close>

definition data_start_row :: "pylib \<Rightarrow> worksheet \<Rightarrow> nat \<Rightarrow> nat" where
  "data_start_row lib ws param_row = skip_meta lib ws (skip_meta lib ws (param_row + 1))"

text \<open>
  The parallel lists \<^verbatim>\<open>row_idxs\<close> and \<^verbatim>\<open>dates\<close> as one list of pairs (row, date).
\<close>

definition dated_rows :: "pylib \<Rightarrow> worksheet \<Rightarrow> nat \<Rightarrow> nat \<Rightarrow> (nat \<times> datetime) list" where
  "dated_rows lib ws date_col start_row =
     List.map_filter
       (\<lambda>r. map_option (\<lambda>dt. (r, dt)) (parse_date_cell lib (cell_value ws r date_col)))
       [start_row ..< max_row ws + 1]"

text \<open>
  \<^verbatim>\<open>[int(x) for x in months_csv.split(",") if x.strip().isdigit()]\<close>; \<^verbatim>\<open>int\<close> of
  a field whose stripped text is all digits is the value of these digits.
\<close>

definition month_tokens :: "string \<Rightarrow> int list" where
  "month_tokens months_csv =
     map (\<lambda>x. int (digits_val (strip x)))
       (filter (\<lambda>x. isdigit (strip x)) (split_comma months_csv))"

text \<open>\<^verbatim>\<open>max(dates)\<close> on a non-empty list: the first of the greatest elements.\<close>

definition dt_max :: "datetime list \<Rightarrow> datetime" where
  "dt_max ds = foldl (\<lambda>a b. if dt_key a < dt_key b then b else a) (hd ds) (tl ds)"

text \<open>\<open>(sel_month, sel_year)\<close>.\<close>

definition selected_month :: "string \<Rightarrow> int \<Rightarrow> datetime list \<Rightarrow> int \<times> int" where
  "selected_month months_csv year dates =
     (let tokens = month_tokens months_csv
      in if tokens \<noteq> [] then (last tokens, year)
         else (let latest = dt_max dates in (dt_month latest, dt_year latest)))"

text \<open>\<open>(start_dt, end_dt)\<close> of the six-month window that ends with the selected month.\<close>

definition window_bounds :: "int \<Rightarrow> int \<Rightarrow> error + datetime \<times> datetime" where
  "window_bounds sel_year sel_month =
     (case ym_add sel_year sel_month (- 5) of (start_y, start_m) \<Rightarrow>
        (case month_start start_y start_m of
           Inl e \<Rightarrow> Inl e
         | Inr start_dt \<Rightarrow>
             (case month_end sel_year sel_month of
                Inl e \<Rightarrow> Inl e
              | Inr end_dt \<Rightarrow> Inr (start_dt, end_dt))))"

text \<open>The rows picked by \<^verbatim>\<open>idxs\<close>: \<^verbatim>\<open>start_dt <= d <= end_dt\<close>.\<close>

definition window_rows ::
  "datetime \<Rightarrow> datetime \<Rightarrow> (nat \<times> datetime) list \<Rightarrow> (nat \<times> datetime) list" where
  "window_rows start_dt end_dt rows =
     filter (\<lambda>(r, d). dt_le start_dt d \<and> dt_le d end_dt) rows"

text \<open>
  One selected parameter column: its index, its label, and whether it belongs to the
  first and to the second group.
\<close>

record param_column =
  col_index :: nat
  col_label :: string
  in_g1 :: bool
  in_g2 :: bool

definition column_of ::
  "pylib \<Rightarrow> worksheet \<Rightarrow> nat \<Rightarrow> nat \<Rightarrow> (nat \<times> datetime) list \<Rightarrow> nat \<Rightarrow> param_column option" where
  "column_of lib ws param_row date_col rows c =
     (if c = date_col then None
      else (let raw = text_of lib ws param_row c
            in if raw = [] then None
               else (let norm = alnum_only (lower raw)
                     in if norm = [] \<or> norm = ''date'' \<or> any_key_in EXCLUDE_HDR_WORDS norm
                        then None
                        else (let g1 = any_key_in GROUP1_KEYS norm;
                                  g2 = any_key_in GROUP2_KEYS norm
                              in if \<not> (g1 \<or> g2) then None
                                 else if \<not> list_ex (\<lambda>(r, d). num_value (cell_value ws r c) \<noteq> None) rows
                                 then None
                                 else Some \<lparr>col_index = c, col_label = strip raw,
                                            in_g1 = g1, in_g2 = g2\<rparr>))))"

definition selected_columns ::
  "pylib \<Rightarrow> worksheet \<Rightarrow> nat \<Rightarrow> nat \<Rightarrow> (nat \<times> datetime) list \<Rightarrow> param_column list" where
  "selected_columns lib ws param_row date_col rows =
     List.map_filter (column_of lib ws param_row date_col rows) [1 ..< max_column ws + 1]"

text \<open>The points of one column: the rows of the window whose cell \<^verbatim>\<open>float\<close> accepts.\<close>

definition column_points ::
  "pylib \<Rightarrow> worksheet \<Rightarrow> (nat \<times> datetime) list \<Rightarrow> nat \<Rightarrow> (datetime \<times> real) list" where
  "column_points lib ws rows c =
     List.map_filter
       (\<lambda>(r, d). map_option (\<lambda>v. (d, v)) (py_float lib (cell_value ws r c))) rows"

definition series_step ::
  "pylib \<Rightarrow> worksheet \<Rightarrow> (nat \<times> datetime) list \<Rightarrow> series \<Rightarrow> param_column \<Rightarrow> series" where
  "series_step lib ws rows series col =
     (let pts = column_points lib ws rows (col_index col)
      in if pts \<noteq> [] then dict_set (col_label col) pts series else series)"

definition group_graph ::
  "pylib \<Rightarrow> worksheet \<Rightarrow> (nat \<times> datetime) list \<Rightarrow> param_column list \<Rightarrow> series option" where
  "group_graph lib ws rows group_cols =
     (if group_cols = [] then None
      else (let series = foldl (series_step lib ws rows) [] group_cols
            in if series = [] then None else plot_series_to_doc series))"

text \<open>
  What \<^verbatim>\<open>table_then_two_graphs\<close> adds to the document: the table rows (the date, the
  worksheet row it comes from, and the cells of the selected columns, before they are
  rendered as text) and the points of the two charts.
\<close>

record sheet_output =
  out_headers :: "string list"
  out_table :: "(datetime \<times> nat \<times> cell list) list"
  out_graph1 :: "series option"
  out_graph2 :: "series option"

text \<open>
  \<^verbatim>\<open>table_then_two_graphs\<close>. \<open>Inl\<close> is an exception that leaves the function,
  \<open>Inr None\<close> is \<^verbatim>\<open>return False\<close>, \<open>Inr (Some out)\<close> is \<^verbatim>\<open>return True\<close> with the
  output. \<^verbatim>\<open>not param_row\<close> holds of \<^verbatim>\<open>None\<close> and of 0.
\<close>

definition table_then_two_graphs ::
  "pylib \<Rightarrow> worksheet \<Rightarrow> string \<Rightarrow> int \<Rightarrow> error + sheet_output option" where
  "table_then_two_graphs lib ws months_csv year =
     (case (find_param_header_row lib ws, find_date_column lib ws) of
        (Some param_row, Some date_col) \<Rightarrow>
          if param_row = 0 \<or> date_col = 0 then Inr None
          else (let start_row = data_start_row lib ws param_row;
                    rows = dated_rows lib ws date_col start_row
                in if rows = [] then Inr None
                   else (case selected_month months_csv year (map snd rows) of
                           (sel_month, sel_year) \<Rightarrow>
                     (case window_bounds sel_year sel_month of
                        Inl e \<Rightarrow> Inl e
                      | Inr (start_dt, end_dt) \<Rightarrow>
                          (let win = window_rows start_dt end_dt rows
                           in if win = [] then Inr None
                              else (let cols = selected_columns lib ws param_row date_col win
                                    in if cols = [] then Inr None
                                       else Inr (Some
                                         \<lparr>out_headers = ''Date'' # map col_label cols,
                                          out_table =
                                            map (\<lambda>(r, dt).
                                                  (dt, r, map (\<lambda>col. cell_value ws r (col_index col)) cols))
                                              win,
                                          out_graph1 = group_graph lib ws win (filter in_g1 cols),
                                          out_graph2 = group_graph lib ws win (filter in_g2 cols)\<rparr>))))))
      | _ \<Rightarrow> Inr None)"

subsection \<open>The loop over the sheets\<close>

definition PROCESS_KEYS :: "string list" where
  "PROCESS_KEYS = [''raw'', ''sewage'', ''biofilter'', ''waternox'', ''waternox-ls'']"

definition final_or_polisher :: "string \<Rightarrow> bool" where
  "final_or_polisher lname \<longleftrightarrow>
     str_contains lname ''final effluent'' \<or> str_contains lname ''polisher effluent''"

definition process_sheet :: "string \<Rightarrow> bool" where
  "process_sheet lname \<longleftrightarrow> any_key_in PROCESS_KEYS lname \<or> final_or_polisher lname"

text \<open>
  The state of the loop of \<^verbatim>\<open>main\<close>: the two flags, and the calls of
  \<^verbatim>\<open>table_then_two_graphs\<close> made so far (sheet name and \<^verbatim>\<open>need_pagebreak\<close>).
\<close>

record main_state =
  any_done :: bool
  first_section :: bool
  calls :: "(string \<times> bool) list"

text \<open>
  The \<^verbatim>\<open>for sheet_name in wb.sheetnames\<close> loop. \<open>run_sheet name need_pagebreak\<close> is the
  call of \<^verbatim>\<open>table_then_two_graphs\<close> on that sheet: its boolean result, or the exception
  that ends \<^verbatim>\<open>main\<close>.
\<close>

fun main_loop ::
  "(string \<Rightarrow> bool \<Rightarrow> error + bool) \<Rightarrow> string list \<Rightarrow> main_state \<Rightarrow> error + main_state" where
  "main_loop run_sheet [] st = Inr st"
| "main_loop run_sheet (sheet_name # rest) st =
     (let lname = lower sheet_name
      in if \<not> process_sheet lname then main_loop run_sheet rest st
         else (case run_sheet sheet_name (\<not> first_section st) of
                 Inl e \<Rightarrow> Inl e
               | Inr ok \<Rightarrow>
                   (let st1 = st\<lparr>calls := calls st @ [(sheet_name, \<not> first_section st)]\<rparr>;
                        st2 = (if ok then st1\<lparr>any_done := True, first_section := False\<rparr>
                               else st1)
                    in if final_or_polisher lname then Inr st2
                       else main_loop run_sheet rest st2)))"

definition initial_main_state :: main_state where
  "initial_main_state = \<lparr>any_done = False, first_section = True, calls = []\<rparr>"

subsection \<open>Notions of the specification\<close>

text \<open>
  The normalized text of a cell: lower case, and every character that is not one of the
  letters \<open>a\<close>..\<open>z\<close> or a digit removed.
\<close>

definition normalized_text :: "string \<Rightarrow> string" where
  "normalized_text s =
     filter (\<lambda>c. c \<in> set ''abcdefghijklmnopqrstuvwxyz0123456789'') (map lower_char s)"

text \<open>
  The cells of row \<open>r\<close>, within the first 80 columns, whose normalized text contains a
  parameter keyword, that is, has the keyword as a contiguous part.
\<close>

definition keyword_cells :: "pylib \<Rightarrow> worksheet \<Rightarrow> nat \<Rightarrow> nat set" where
  "keyword_cells lib ws r =
     {c. 1 \<le> c \<and> c \<le> min (max_column ws) 80 \<and>
         (\<exists>key \<in> set PARAM_KEYS. \<exists>pre post.
            normalized_text (text_of lib ws r c) = pre @ key @ post)}"

text \<open>
  Calendar months counted from year 0: month \<open>m\<close> of year \<open>y\<close> has index \<open>12 y + m - 1\<close>,
  so consecutive calendar months have consecutive indices across the year boundary.
\<close>

definition month_index :: "datetime \<Rightarrow> int" where
  "month_index d = dt_year d * 12 + dt_month d - 1"

text \<open>What every Python datetime satisfies: a month, a day of that month, a time of day.\<close>

definition valid_datetime :: "datetime \<Rightarrow> bool" where
  "valid_datetime d \<longleftrightarrow>
     1 \<le> dt_month d \<and> dt_month d \<le> 12 \<and>
     1 \<le> dt_day d \<and> dt_day d \<le> days_in_month (dt_year d) (dt_month d) \<and>
     0 \<le> dt_hour d \<and> 0 \<le> dt_minute d \<and> 0 \<le> dt_second d \<and> 0 \<le> dt_micro d"

definition at_midnight :: "datetime \<Rightarrow> bool" where
  "at_midnight d \<longleftrightarrow> dt_hour d = 0 \<and> dt_minute d = 0 \<and> dt_second d = 0 \<and> dt_micro d = 0"

subsection \<open>Example libraries and worksheets\<close>

text \<open>
  A library for the examples: every parse raises, and \<^verbatim>\<open>str\<close> of a value that is not a
  string is taken as empty. The examples hold numbers and dates in such cells; their
  real text (digits, \<^verbatim>\<open>-\<close>, \<^verbatim>\<open>:\<close>, \<^verbatim>\<open>.\<close>) contains none of the keywords the source
  searches for, so no test on the text of a cell changes. Float arithmetic does not
  round here; no example that uses this library computes with floats.
\<close>

definition failing_lib :: pylib where
  "failing_lib =
     \<lparr>strptime = (\<lambda>s fmt. None), from_excel = (\<lambda>x. None), add_days = (\<lambda>d x. None),
      str_of = (\<lambda>v. ''''), float_of_str = (\<lambda>s. None),
      fl_sum = sum_list, fl_mul = (\<lambda>x y. x * y), fl_div = (\<lambda>x y. x / y)\<rparr>"

text \<open>
  A library for the serial-number example: \<^verbatim>\<open>from_excel\<close> maps the serial 45292 to
  1 January 2024 and a fraction of a day to a time of day, and \<^verbatim>\<open>strptime\<close> reads
  \<^verbatim>\<open>01-Jan-2024\<close> in the format \<^verbatim>\<open>%d-%b-%Y\<close>; every other call raises.
\<close>

definition serial_lib :: pylib where
  "serial_lib =
     \<lparr>strptime = (\<lambda>s fmt. if s = ''01-Jan-2024'' \<and> fmt = ''%d-%b-%Y''
                           then Some (DateTime 2024 1 1 0 0 0 0) else None),
      from_excel = (\<lambda>x. if x = 45292 then Some (ConvDateTime (DateTime 2024 1 1 0 0 0 0))
                         else if 0 \<le> x \<and> x < 1 then Some (ConvTime (Time 12 0 0 0))
                         else None),
      add_days = (\<lambda>d x. None),
      str_of = (\<lambda>v. ''''),
      float_of_str = (\<lambda>s. None),
      fl_sum = sum_list, fl_mul = (\<lambda>x y. x * y), fl_div = (\<lambda>x y. x / y)\<rparr>"

text \<open>A worksheet given by its rows; cells beyond a row's end are empty.\<close>

definition sheet_of_rows :: "cell list list \<Rightarrow> worksheet" where
  "sheet_of_rows rows =
     \<lparr>max_row = max 1 (length rows),
      max_column = max 1 (foldr (\<lambda>row n. max (length row) n) rows 0),
      cell_value = (\<lambda>r c.
         if 1 \<le> r \<and> r \<le> length rows \<and> 1 \<le> c \<and> c \<le> length (rows ! (r - 1))
         then rows ! (r - 1) ! (c - 1) else CNone)\<rparr>"

section \<open>FlowData.py\<close>

subsection \<open>The months of \<^verbatim>\<open>main\<close> and the sheets they select\<close>

text \<open>
  \<^verbatim>\<open>months_csv = ",".join(str(MONTH_TO_NUM[m]) for m in span_months)\<close> of
  \<^verbatim>\<open>run_summary\<close>, the argument both extraction scripts receive.
\<close>

fun month_numbers :: "string list \<Rightarrow> error + string list" where
  "month_numbers [] = Inr []"
| "month_numbers (m # ms) =
     (case MONTH_TO_NUM m of
        None \<Rightarrow> Inl KeyError
      | Some n \<Rightarrow>
          (case month_numbers ms of
             Inl e \<Rightarrow> Inl e
           | Inr ns \<Rightarrow> Inr (str_int (int n) # ns)))"

definition months_csv_of :: "string list \<Rightarrow> error + string" where
  "months_csv_of names = map_sum id (join '','') (month_numbers names)"

text \<open>\<^verbatim>\<open>[int(x) for x in sys.argv[2].split(",") if x.strip()]\<close>.\<close>

fun ints_of :: "string list \<Rightarrow> error + int list" where
  "ints_of [] = Inr []"
| "ints_of (x # xs) =
     (if strip x = [] then ints_of xs
      else (case py_int x of
              None \<Rightarrow> Inl ValueError
            | Some i \<Rightarrow>
                (case ints_of xs of
                   Inl e \<Rightarrow> Inl e
                 | Inr is \<Rightarrow> Inr (i # is))))"

definition flow_months :: "string \<Rightarrow> error + int list" where
  "flow_months arg = ints_of (split_comma arg)"

text \<open>
  The text a sheet name must contain for month \<open>m\<close>:
  \<^verbatim>\<open>f"{month_name[:3].title()} {str(year)[-2:]}"\<close>.
\<close>

definition flow_target :: "int \<Rightarrow> int \<Rightarrow> error + string" where
  "flow_target year m =
     (case py_nth MONTHS_FULL (m - 1) of
        Inl e \<Rightarrow> Inl e
      | Inr name \<Rightarrow> Inr (title (take 3 name) @ '' '' @ last_two (str_int year)))"

text \<open>The loop \<^verbatim>\<open>for m in sorted(months)\<close>: each month with its target, in that order.\<close>

fun targets_of :: "int \<Rightarrow> int list \<Rightarrow> error + (int \<times> string) list" where
  "targets_of year [] = Inr []"
| "targets_of year (m # ms) =
     (case flow_target year m of
        Inl e \<Rightarrow> Inl e
      | Inr target \<Rightarrow>
          (case targets_of year ms of
             Inl e \<Rightarrow> Inl e
           | Inr ts \<Rightarrow> Inr ((m, target) # ts)))"

definition flow_targets :: "string \<Rightarrow> int \<Rightarrow> error + (int \<times> string) list" where
  "flow_targets arg year =
     (case flow_months arg of
        Inl e \<Rightarrow> Inl e
      | Inr months \<Rightarrow> targets_of year (sort months))"

text \<open>\<^verbatim>\<open>[s for s in wb.sheetnames if target.lower() in s.lower()]\<close>.\<close>

definition matching_sheets :: "string list \<Rightarrow> string \<Rightarrow> string list" where
  "matching_sheets sheetnames target =
     filter (\<lambda>s. str_contains (lower s) (lower target)) sheetnames"

subsection \<open>The series of \<^verbatim>\<open>sheet_to_word_table\<close>\<close>

definition FLOW_FORMATS :: "string list" where
  "FLOW_FORMATS = [''%d-%b-%y'', ''%d-%b-%Y'', ''%Y-%m-%d'', ''%b %d, %Y'', ''%B %d, %Y'']"

text \<open>Python truthiness of a cell value, and \<^verbatim>\<open>str(v)\<close>.\<close>

definition py_truthy :: "cell \<Rightarrow> bool" where
  "py_truthy v =
     (case v of
        CNone \<Rightarrow> False
      | CStr s \<Rightarrow> s \<noteq> []
      | CBool b \<Rightarrow> b
      | CInt i \<Rightarrow> i \<noteq> 0
      | CFloat x \<Rightarrow> x \<noteq> 0
      | _ \<Rightarrow> True)"

definition py_str :: "pylib \<Rightarrow> cell \<Rightarrow> string" where
  "py_str lib v =
     (case v of
        CNone \<Rightarrow> ''None''
      | CStr s \<Rightarrow> s
      | _ \<Rightarrow> str_of lib v)"

text \<open>The date of a row: \<^verbatim>\<open>dt\<close> after the \<^verbatim>\<open>if\<close>/\<^verbatim>\<open>elif\<close> on column 1.\<close>

definition flow_row_date :: "pylib \<Rightarrow> cell \<Rightarrow> datetime option" where
  "flow_row_date lib date_val =
     (case date_val of
        CDateTime d \<Rightarrow> Some d
      | _ \<Rightarrow> if py_truthy date_val then first_parse lib (py_str lib date_val) FLOW_FORMATS
             else None)"

text \<open>
  The lists the series loop builds; \<open>red_rows\<close> are the table rows whose flow cell is
  coloured red.
\<close>

record flow_acc =
  times :: "datetime option list"
  fvalues :: "real list"
  exceedances :: "(datetime option \<times> real) list"
  red_rows :: "nat list"

definition flow_step ::
  "pylib \<Rightarrow> worksheet \<Rightarrow> nat \<Rightarrow> nat option \<Rightarrow> real option \<Rightarrow> flow_acc \<Rightarrow> nat \<times> nat \<Rightarrow> flow_acc" where
  "flow_step lib ws excel_chart_col chart_col_idx peak_capacity acc rr =
     (case rr of (ridx, r) \<Rightarrow>
        (let dt = flow_row_date lib (cell_value ws r 1)
         in case py_float lib (cell_value ws r excel_chart_col) of
              None \<Rightarrow> acc
            | Some fval \<Rightarrow>
                (let acc1 = acc\<lparr>times := times acc @ [dt], fvalues := fvalues acc @ [fval]\<rparr>
                 in case peak_capacity of
                      None \<Rightarrow> acc1
                    | Some p \<Rightarrow>
                        if fval > p \<and> chart_col_idx \<noteq> None
                        then acc1\<lparr>exceedances := exceedances acc1 @ [(dt, fval)],
                                  red_rows := red_rows acc1 @ [ridx]\<rparr>
                        else acc1)))"

definition flow_series ::
  "pylib \<Rightarrow> worksheet \<Rightarrow> nat \<Rightarrow> nat \<Rightarrow> nat \<Rightarrow> nat option \<Rightarrow> real option \<Rightarrow> flow_acc" where
  "flow_series lib ws date_row avg_row excel_chart_col chart_col_idx peak_capacity =
     foldl (flow_step lib ws excel_chart_col chart_col_idx peak_capacity)
       \<lparr>times = [], fvalues = [], exceedances = [], red_rows = []\<rparr>
       (enumerate 0 [date_row ..< avg_row + 1])"

text \<open>
  The chart data \<^verbatim>\<open>(days, values)\<close>: the row number when no row has a date, otherwise
  the day of the month of the rows that have one, in the order of the rows.
\<close>

definition flow_chart :: "datetime option list \<Rightarrow> real list \<Rightarrow> int list \<times> real list" where
  "flow_chart ts vs =
     (if vs \<noteq> [] \<and> list_all (\<lambda>t. t = None) ts
      then (map int [1 ..< length vs + 1], vs)
      else (let pairs = List.map_filter (\<lambda>(t, v). map_option (\<lambda>d. (d, v)) t) (zip ts vs)
            in (map (\<lambda>(t, v). dt_day t) pairs, map snd pairs)))"

text \<open>
  The float literal \<^verbatim>\<open>0.9\<close>: the binary64 number nearest to nine tenths, which is a
  little above it.
\<close>

definition NINE_TENTHS :: real where
  "NINE_TENTHS = 8106479329266893 / 2 ^ 53"

text \<open>
  The conditional expression on \<^verbatim>\<open>avg_flow\<close>; \<^verbatim>\<open>0.9 * peak_capacity\<close> is a product of
  floats.
\<close>

definition avg_classification :: "pylib \<Rightarrow> real \<Rightarrow> real \<Rightarrow> string" where
  "avg_classification lib avg_flow peak_capacity =
     (if avg_flow < fl_mul lib NINE_TENTHS peak_capacity then ''well within''
      else if avg_flow \<le> peak_capacity then ''close to''
      else ''above'')"

text \<open>
  What the series part of \<^verbatim>\<open>sheet_to_word_table\<close> produces: the points of the chart and
  the summary (number of exceedances and classification of the average
  \<^verbatim>\<open>sum(values) / len(values)\<close>), each absent when the source skips it.
\<close>

record flow_result =
  plot_days :: "int list"
  plot_values :: "real list"
  summary :: "(nat \<times> string) option"

definition flow_output ::
  "pylib \<Rightarrow> worksheet \<Rightarrow> nat \<Rightarrow> nat \<Rightarrow> nat \<Rightarrow> nat option \<Rightarrow> real option \<Rightarrow> flow_result option" where
  "flow_output lib ws date_row avg_row excel_chart_col chart_col_idx peak_capacity =
     (let acc = flow_series lib ws date_row avg_row excel_chart_col chart_col_idx peak_capacity
      in case flow_chart (times acc) (fvalues acc) of (days, vs) \<Rightarrow>
           if vs \<noteq> [] \<and> days \<noteq> []
           then Some \<lparr>plot_days = days, plot_values = vs,
                      summary =
                        (case peak_capacity of
                           None \<Rightarrow> None
                         | Some p \<Rightarrow>
                             Some (length (exceedances acc),
                                   avg_classification lib
                                     (fl_div lib (fl_sum lib vs) (real (length vs))) p))\<rparr>
           else None)"

subsection \<open>Binary64 numbers\<close>




subsection \<open>Invariants\<close>


section \<open>Evaluation of the string functions\<close>

lemmas str_eval = lower_def lower_char_def strip_def is_space_def any_key_in_def

section \<open>The schedule-relative window\<close>

lemma month_to_num_table:
  "map (\<lambda>(i, m). (m, i + 1)) (enumerate 0 MONTHS_FULL) =
     [(''January'', 1), (''February'', 2), (''March'', 3), (''April'', 4), (''May'', 5),
      (''June'', 6), (''July'', 7), (''August'', 8), (''September'', 9), (''October'', 10),
      (''November'', 11), (''December'', 12)]"
  by (simp add: MONTHS_FULL_def)

lemma num_to_month_table:
  "map (\<lambda>(i, m). (i + 1, m)) (enumerate 0 MONTHS_FULL) =
     [(1, ''January''), (2, ''February''), (3, ''March''), (4, ''April''), (5, ''May''),
      (6, ''June''), (7, ''July''), (8, ''August''), (9, ''September''), (10, ''October''),
      (11, ''November''), (12, ''December'')]"
  by (simp add: MONTHS_FULL_def)

lemmas MONTH_TO_NUM_eq = MONTH_TO_NUM_def[unfolded month_to_num_table]
lemmas NUM_TO_MONTH_eq = NUM_TO_MONTH_def[unfolded num_to_month_table]

lemma month_cases:
  "1 \<le> i \<Longrightarrow> i \<le> 12 \<Longrightarrow>
   i = 1 \<or> i = 2 \<or> i = 3 \<or> i = 4 \<or> i = 5 \<or> i = 6 \<or> i = 7 \<or> i = 8 \<or> i = 9 \<or> i = 10 \<or> i = 11 \<or> i = (12::nat)"
  by arith

lemma NUM_TO_MONTH_Some: "1 \<le> i \<Longrightarrow> i \<le> 12 \<Longrightarrow> NUM_TO_MONTH i = Some (month_name i)"
  by (drule (1) month_cases) (auto simp: NUM_TO_MONTH_eq month_name_def MONTHS_FULL_def)

lemma MONTH_TO_NUM_range: "MONTH_TO_NUM m = Some n \<Longrightarrow> 1 \<le> n \<and> n \<le> 12 \<and> month_name n = m"
  by (auto simp: MONTH_TO_NUM_eq month_name_def MONTHS_FULL_def split: if_splits)

lemma MONTH_TO_NUM_dom: "m \<in> set MONTHS_FULL \<Longrightarrow> \<exists>n. MONTH_TO_NUM m = Some n"
  by (auto simp: MONTH_TO_NUM_eq MONTHS_FULL_def)

lemma MONTH_TO_NUM_None: "m \<notin> set MONTHS_FULL \<Longrightarrow> MONTH_TO_NUM m = None"
  by (auto simp: MONTH_TO_NUM_eq MONTHS_FULL_def)

lemma calendar_walk_same: "1 \<le> i \<Longrightarrow> i \<le> 12 \<Longrightarrow> calendar_walk i i = [i]"
  by (simp add: calendar_walk_def)



lemma walk_dist_0:
  assumes "1 \<le> i" "i \<le> 12" "1 \<le> e" "e \<le> 12" "(e + 12 - i) mod 12 = 0" shows "i = (e::nat)"
  using month_cases[OF assms(1,2)] month_cases[OF assms(3,4)] assms(5)
  by (elim disjE; simp)

lemma walk_dist_Suc:
  assumes "1 \<le> i" "i \<le> 12" "1 \<le> e" "e \<le> 12" "i \<noteq> e"
  shows "(e + 12 - i) mod 12 = Suc ((e + 12 - (if i = 12 then 1 else i + 1)) mod 12)"
  using month_cases[OF assms(1,2)] month_cases[OF assms(3,4)] assms(5)
  by (elim disjE; simp)

lemma walk_shift:
  assumes "1 \<le> i" "i \<le> 12" 
  shows "(i - 1 + Suc k) mod 12 + 1 = ((if i = 12 then 1 else i + 1) - 1 + k) mod 12 + 1"
  using month_cases[OF assms(1,2)]
  by (elim disjE; simp)

lemma walk_first: "1 \<le> i \<Longrightarrow> i \<le> 12 \<Longrightarrow> (i - 1 + 0) mod 12 + 1 = (i::nat)"
  by simp

lemma calendar_walk_step:
  assumes "1 \<le> i" "i \<le> 12" "1 \<le> e" "e \<le> 12" "i \<noteq> e"
  shows "calendar_walk i e = i # calendar_walk (if i = 12 then 1 else i + 1) e"
proof -
  let ?i' = "if i = 12 then 1 else i + 1"
  let ?m = "(e + 12 - ?i') mod 12"
  have up: "[0 ..< Suc ?m + 1] = 0 # map Suc [0 ..< ?m + 1]"
    by (subst upt_rec) (simp add: map_Suc_upt del: upt_Suc)
  have "calendar_walk i e = map (\<lambda>k. (i - 1 + k) mod 12 + 1) (0 # map Suc [0 ..< ?m + 1])"
    unfolding calendar_walk_def walk_dist_Suc[OF assms] up ..
  also have "\<dots> = i # map (\<lambda>k. (i - 1 + Suc k) mod 12 + 1) [0 ..< ?m + 1]"
    using walk_first[OF assms(1,2)] by (simp only: list.map map_map comp_def)
  also have "\<dots> = i # calendar_walk ?i' e"
    unfolding calendar_walk_def walk_shift[OF assms(1,2)] ..
  finally show ?thesis .
qed

lemma months_loop_walk:
  "1 \<le> i \<Longrightarrow> i \<le> 12 \<Longrightarrow> 1 \<le> e \<Longrightarrow> e \<le> 12 \<Longrightarrow>
   months_loop i e out = Some (Inr (out @ map month_name (calendar_walk i e)))"
proof (induction "(e + 12 - i) mod 12" arbitrary: i out)
  case 0
  then have ie: "i = e" using walk_dist_0 by simp
  have nm: "NUM_TO_MONTH e = Some (month_name e)"
    using NUM_TO_MONTH_Some 0 by simp
  show ?case unfolding ie
    by (subst months_loop.simps) (simp add: nm calendar_walk_same[OF "0.prems"(3,4)])
next
  case (Suc n)
  let ?i' = "if i = 12 then 1 else i + 1"
  from Suc have ne: "i \<noteq> e" by auto
  have n: "n = (e + 12 - ?i') mod 12"
    using Suc.hyps(2) walk_dist_Suc[OF Suc.prems ne] by simp
  have r: "1 \<le> ?i'" "?i' \<le> 12" using Suc.prems by auto
  have ih: "months_loop ?i' e (out @ [month_name i]) =
        Some (Inr ((out @ [month_name i]) @ map month_name (calendar_walk ?i' e)))"
    using Suc.hyps(1)[OF n r Suc.prems(3,4)] .
  have cw: "calendar_walk i e = i # calendar_walk ?i' e"
    using calendar_walk_step[OF Suc.prems ne] .
  have nm: "NUM_TO_MONTH i = Some (month_name i)"
    using NUM_TO_MONTH_Some Suc.prems by simp
  show ?case
    by (subst months_loop.simps)
       (simp only: nm cw ih ne option.case if_False list.map append.simps append_assoc)
qed


lemma MONTH_TO_NUM_number: "m \<in> set MONTHS_FULL \<Longrightarrow> MONTH_TO_NUM m = Some (month_number m)"
  by (auto simp: MONTH_TO_NUM_eq MONTHS_FULL_def month_number_def)

lemma month_number_range: "m \<in> set MONTHS_FULL \<Longrightarrow> 1 \<le> month_number m \<and> month_number m \<le> 12"
  using MONTH_TO_NUM_number MONTH_TO_NUM_range by blast

lemma list_index_None: "x \<notin> set xs \<Longrightarrow> list_index xs x = None"
  by (induction xs) auto

lemma list_index_first: "x \<notin> set pre \<Longrightarrow> list_index (pre @ x # post) x = Some (length pre)"
  by (induction pre) auto

lemma previous_visit_month_absent:
  "current \<notin> set visits \<Longrightarrow> previous_visit_month visits current = None"
  by (simp add: previous_visit_month_def list_index_None)

lemma previous_visit_month_first:
  assumes "current \<notin> set pre"
  shows "previous_visit_month (pre @ current # post) current =
           Some (if pre = [] then last (current # post) else last pre)"
proof (cases "pre = []")
  case True
  then show ?thesis by (simp add: previous_visit_month_def)
next
  case False
  then have "(pre @ current # post) ! (length pre - 1) = last pre"
    by (simp add: nth_append last_conv_nth)
  with False show ?thesis
    by (simp add: previous_visit_month_def list_index_first[OF assms])
qed

text \<open>
  Claim C2. For a visit schedule of valid month names and a valid target month name, the
  span computed by \<^verbatim>\<open>run_summary\<close> is the single target month when the target is
  not in the schedule; when it is, the span is the calendar walk from the target's
  predecessor in the schedule (the entry before its first occurrence, the last entry when
  the target comes first) to the target, inclusive, one entry per calendar month.
\<close>

theorem schedule_relative_window:
  "target \<in> set MONTHS_FULL \<Longrightarrow> set visits \<subseteq> set MONTHS_FULL \<Longrightarrow>
   (target \<notin> set visits \<longrightarrow> span_months visits target = Some (Inr [target])) \<and>
   (visits = pre @ target # post \<and> target \<notin> set pre \<longrightarrow>
      span_months visits target =
        Some (Inr (map month_name
          (calendar_walk (month_number (if pre = [] then last visits else last pre))
                         (month_number target)))))"
proof (intro conjI impI)
  assume "target \<notin> set visits"
  then show "span_months visits target = Some (Inr [target])"
    by (simp add: span_months_def previous_visit_month_absent)
next
  assume t: "target \<in> set MONTHS_FULL" and v: "set visits \<subseteq> set MONTHS_FULL"
    and "visits = pre @ target # post \<and> target \<notin> set pre"
  then have vs: "visits = pre @ target # post" and np: "target \<notin> set pre" by simp_all
  let ?p = "if pre = [] then last visits else last pre"
  have pv: "previous_visit_month visits target = Some ?p"
    unfolding vs using previous_visit_month_first[OF np] by simp
  have "?p \<in> set visits" unfolding vs by auto
  with v have pm: "?p \<in> set MONTHS_FULL" by blast
  then have pne: "?p \<noteq> []" by (auto simp: MONTHS_FULL_def)
  have "span_months visits target = months_between_inclusive ?p target"
    using pne by (simp add: span_months_def pv)
  also have "\<dots> = months_loop (month_number ?p) (month_number target) []"
    by (simp only: months_between_inclusive_def MONTH_TO_NUM_number[OF pm]
          MONTH_TO_NUM_number[OF t] option.case)
  also have "\<dots> = Some (Inr ([] @ map month_name
                (calendar_walk (month_number ?p) (month_number target))))"
    using month_number_range[OF pm] month_number_range[OF t] by (intro months_loop_walk) simp_all
  finally show "span_months visits target =
        Some (Inr (map month_name (calendar_walk (month_number ?p) (month_number target))))"
    by simp
qed

text \<open>
  The examples of the specification: schedule March, July, November with target November;
  schedule January, June with target January (an 8-month walk); and a target that is
  not scheduled.
\<close>

theorem schedule_relative_window_witness:
  "span_months [''March'', ''July'', ''November''] ''November'' =
     Some (Inr [''July'', ''August'', ''September'', ''October'', ''November'']) \<and>
   span_months [''January'', ''June''] ''January'' =
     Some (Inr [''June'', ''July'', ''August'', ''September'', ''October'', ''November'',
                ''December'', ''January'']) \<and>
   span_months [''March'', ''July'', ''November''] ''May'' = Some (Inr [''May''])"
  using schedule_relative_window [of "''November''" "[''March'', ''July'', ''November'']"
          "[''March'', ''July'']" "[]"]
        schedule_relative_window [of "''January''" "[''January'', ''June'']" "[]" "[''June'']"]
        schedule_relative_window [of "''May''" "[''March'', ''July'', ''November'']" "[]" "[]"]
  by (simp add: month_number_def MONTHS_FULL_def calendar_walk_def month_name_def upt_rec)

section \<open>The loop over the sheets stops at the final effluent\<close>

lemma final_process: "final_or_polisher l \<Longrightarrow> process_sheet l"
  by (simp add: process_sheet_def)

lemma main_loop_last:
  assumes "final_or_polisher (lower s)"
  shows "main_loop run_sheet (s # post) st = main_loop run_sheet [s] st"
  using assms final_process[OF assms]
  by (simp add: Let_def split: sum.splits)

lemma main_loop_stops:
  assumes "final_or_polisher (lower s)"
  shows "main_loop run_sheet (pre @ s # post) st = main_loop run_sheet (pre @ [s]) st"
proof (induction pre arbitrary: st)
  case Nil
  show ?case using main_loop_last[OF assms] by simp
next
  case (Cons x pre)
  show ?case
    by (simp add: Let_def Cons.IH split: sum.splits)
qed

lemma main_loop_calls_last:
  assumes "final_or_polisher (lower s)" "main_loop run_sheet [s] st = Inr st'"
  shows "map fst (calls st') = map fst (calls st) @ [s]"
  using assms final_process[OF assms(1)]
  by (auto simp: Let_def split: sum.splits if_splits)

lemma main_loop_calls:
  assumes "final_or_polisher (lower s)"
  shows "\<forall>x \<in> set pre. \<not> final_or_polisher (lower x) \<Longrightarrow>
         main_loop run_sheet (pre @ [s]) st = Inr st' \<Longrightarrow>
         map fst (calls st') =
           map fst (calls st) @ filter (\<lambda>x. process_sheet (lower x)) pre @ [s]"
proof (induction pre arbitrary: st)
  case Nil
  then show ?case using main_loop_calls_last[OF assms] by simp
next
  case (Cons x pre)
  from Cons.prems(1) have nf: "\<not> final_or_polisher (lower x)"
    and rest: "\<forall>y \<in> set pre. \<not> final_or_polisher (lower y)" by simp_all
  show ?case
  proof (cases "process_sheet (lower x)")
    case False
    with Cons.prems(2) have "main_loop run_sheet (pre @ [s]) st = Inr st'" by simp
    from Cons.IH[OF rest this] False show ?thesis by simp
  next
    case True
    from Cons.prems(2) True nf obtain ok where
      r: "run_sheet x (\<not> first_section st) = Inr ok"
      by (cases "run_sheet x (\<not> first_section st)") (simp_all add: Let_def)
    let ?st1 = "st\<lparr>calls := calls st @ [(x, \<not> first_section st)]\<rparr>"
    let ?st2 = "if ok then ?st1\<lparr>any_done := True, first_section := False\<rparr> else ?st1"
    from Cons.prems(2) True nf r
    have "main_loop run_sheet (pre @ [s]) ?st2 = Inr st'" by (simp add: Let_def)
    from Cons.IH[OF rest this] True show ?thesis by simp
  qed
qed

text \<open>
  Claim C10. The loop of \<^verbatim>\<open>main\<close> over the sheet names stops at the first sheet whose
  lower-cased name contains "final effluent" or "polisher effluent": the result is the
  one of the workbook cut after that sheet, whatever follows it, and when the loop
  returns, \<^verbatim>\<open>table_then_two_graphs\<close> has been called on the eligible sheets before
  that sheet and on that sheet, and on nothing else.
\<close>

theorem stops_after_final_effluent:
  "final_or_polisher (lower s) \<Longrightarrow> \<forall>x \<in> set pre. \<not> final_or_polisher (lower x) \<Longrightarrow>
   main_loop run_sheet (pre @ s # post) st = main_loop run_sheet (pre @ [s]) st \<and>
   (\<forall>st'. main_loop run_sheet (pre @ s # post) st = Inr st' \<longrightarrow>
      map fst (calls st') =
        map fst (calls st) @ filter (\<lambda>x. process_sheet (lower x)) pre @ [s])"
proof (intro conjI allI impI)
  assume f: "final_or_polisher (lower s)"
  show "main_loop run_sheet (pre @ s # post) st = main_loop run_sheet (pre @ [s]) st"
    by (rule main_loop_stops[OF f])
next
  fix st'
  assume f: "final_or_polisher (lower s)"
    and p: "\<forall>x \<in> set pre. \<not> final_or_polisher (lower x)"
    and r: "main_loop run_sheet (pre @ s # post) st = Inr st'"
  from r have "main_loop run_sheet (pre @ [s]) st = Inr st'"
    by (simp only: main_loop_stops[OF f, of run_sheet pre post st])
  from main_loop_calls[OF f p this]
  show "map fst (calls st') =
        map fst (calls st) @ filter (\<lambda>x. process_sheet (lower x)) pre @ [s]" .
qed

text \<open>
  A workbook whose biofilter sheet comes after the final effluent sheet: the biofilter
  sheet is never passed to \<^verbatim>\<open>table_then_two_graphs\<close>.
\<close>

theorem stops_after_final_effluent_witness:
  "main_loop (\<lambda>name pagebreak. Inr True)
     [''ABC Raw Sewage'', ''Notes'', ''ABC Final Effluent'', ''ABC Biofilter'']
     initial_main_state =
   Inr \<lparr>any_done = True, first_section = False,
        calls = [(''ABC Raw Sewage'', False), (''ABC Final Effluent'', True)]\<rparr>"
proof -
  have f: "final_or_polisher (lower ''ABC Final Effluent'')"
    by (simp add: str_eval final_or_polisher_def)
  have p: "\<forall>x \<in> set [''ABC Raw Sewage'', ''Notes'']. \<not> final_or_polisher (lower x)"
    by (simp add: str_eval final_or_polisher_def)
  have e: "main_loop (\<lambda>name pagebreak. Inr True)
     [''ABC Raw Sewage'', ''Notes'', ''ABC Final Effluent''] initial_main_state =
     Inr \<lparr>any_done = True, first_section = False,
        calls = [(''ABC Raw Sewage'', False), (''ABC Final Effluent'', True)]\<rparr>"
    by (simp add: str_eval final_or_polisher_def process_sheet_def PROCESS_KEYS_def
        initial_main_state_def Let_def)
  from stops_after_final_effluent [OF f p, of "\<lambda>name pagebreak. Inr True"
          "[''ABC Biofilter'']" initial_main_state] e
  show ?thesis by simp
qed

section \<open>The header-row locator\<close>

lemma find_upt_None:
  "find P [a ..< b] = None \<longleftrightarrow> (\<forall>r. a \<le> r \<and> r < b \<longrightarrow> \<not> P r)"
  by (auto simp: find_None_iff)

lemma find_upt_Some:
  "find P [a ..< b] = Some r \<longleftrightarrow> a \<le> r \<and> r < b \<and> P r \<and> (\<forall>r'. a \<le> r' \<and> r' < r \<longrightarrow> \<not> P r')"
proof
  assume "find P [a ..< b] = Some r"
  then obtain i where i: "i < length [a ..< b]" "P ([a ..< b] ! i)" "r = [a ..< b] ! i"
    "\<forall>j<i. \<not> P ([a ..< b] ! j)"
    unfolding find_Some_iff by blast
  then have r: "r = a + i" "i < b - a" by simp_all
  have "\<not> P r'" if "a \<le> r'" "r' < r" for r'
  proof -
    from that r have "r' - a < i" by arith
    with i(4) have "\<not> P ([a ..< b] ! (r' - a))" by blast
    moreover have "[a ..< b] ! (r' - a) = r'" using that r by simp
    ultimately show ?thesis by simp
  qed
  with i r show "a \<le> r \<and> r < b \<and> P r \<and> (\<forall>r'. a \<le> r' \<and> r' < r \<longrightarrow> \<not> P r')" by auto
next
  assume h: "a \<le> r \<and> r < b \<and> P r \<and> (\<forall>r'. a \<le> r' \<and> r' < r \<longrightarrow> \<not> P r')"
  show "find P [a ..< b] = Some r"
    unfolding find_Some_iff
  proof (intro exI[of _ "r - a"] conjI allI impI)
    show "r - a < length [a ..< b]" using h by simp arith
    show "P ([a ..< b] ! (r - a))" using h by simp
    show "r = [a ..< b] ! (r - a)" using h by simp
    fix j assume j: "j < r - a"
    with h have lt: "a + j < r" "a + j < b" by arith+
    then have "[a ..< b] ! j = a + j" by simp
    with h lt show "\<not> P ([a ..< b] ! j)" by simp
  qed
qed

lemma length_filter_upt_card:
  "length (filter P [a ..< b]) = card {c. a \<le> c \<and> c < b \<and> P c}"
proof -
  have "distinct (filter P [a ..< b])" by simp
  then have "length (filter P [a ..< b]) = card (set (filter P [a ..< b]))"
    by (rule distinct_card[symmetric])
  also have "set (filter P [a ..< b]) = {c. a \<le> c \<and> c < b \<and> P c}" by auto
  finally show ?thesis .
qed

lemma any_key_in_empty: "\<not> any_key_in PARAM_KEYS []"
  by (simp add: any_key_in_def PARAM_KEYS_def)

lemma alnum_only_Nil: "alnum_only [] = []"
  by (simp add: alnum_only_def)

lemma param_cell_iff:
  "param_cell lib ws r c \<longleftrightarrow> any_key_in PARAM_KEYS (alnum_only (lower (text_of lib ws r c)))"
  using any_key_in_empty by (auto simp: param_cell_def Let_def alnum_only_Nil)

lemma row_hits_card:
  "row_hits lib ws max_c r =
     card {c. 1 \<le> c \<and> c \<le> max_c \<and>
              any_key_in PARAM_KEYS (alnum_only (lower (text_of lib ws r c)))}"
proof -
  have "{c. 1 \<le> c \<and> c < max_c + 1 \<and> param_cell lib ws r c} =
        {c. 1 \<le> c \<and> c \<le> max_c \<and>
              any_key_in PARAM_KEYS (alnum_only (lower (text_of lib ws r c)))}"
    by (auto simp: param_cell_iff)
  then show ?thesis unfolding row_hits_def length_filter_upt_card by (rule arg_cong)
qed

text \<open>
  The source's test on a cell (\<^verbatim>\<open>key in tok\<close> on the result of \<^verbatim>\<open>re.sub\<close>) is the
  specification's: the keyword is a contiguous part of the normalized text.
\<close>

lemma starts_with_iff: "starts_with s k \<longleftrightarrow> (\<exists>post. s = k @ post)"
  by (induction s k rule: starts_with.induct) auto

lemma str_contains_iff: "str_contains s sub \<longleftrightarrow> (\<exists>pre post. s = pre @ sub @ post)"
proof (induction s)
  case Nil
  show ?case by simp
next
  case (Cons c s)
  have "(\<exists>pre post. c # s = pre @ sub @ post) \<longleftrightarrow>
        (\<exists>post. c # s = sub @ post) \<or> (\<exists>pre post. s = pre @ sub @ post)"
  proof
    assume "\<exists>pre post. c # s = pre @ sub @ post"
    then obtain pre post where e: "c # s = pre @ sub @ post" by blast
    show "(\<exists>post. c # s = sub @ post) \<or> (\<exists>pre post. s = pre @ sub @ post)"
    proof (cases pre)
      case Nil
      with e show ?thesis by auto
    next
      case (Cons d pre')
      with e have "s = pre' @ sub @ post" by simp
      then show ?thesis by blast
    qed
  next
    assume "(\<exists>post. c # s = sub @ post) \<or> (\<exists>pre post. s = pre @ sub @ post)"
    then show "\<exists>pre post. c # s = pre @ sub @ post"
    proof
      assume "\<exists>post. c # s = sub @ post"
      then obtain post where "c # s = [] @ sub @ post" by auto
      then show ?thesis by blast
    next
      assume "\<exists>pre post. s = pre @ sub @ post"
      then obtain pre post where "c # s = (c # pre) @ sub @ post" by auto
      then show ?thesis by blast
    qed
  qed
  with Cons show ?case by (simp add: starts_with_iff)
qed

lemma normalized_text_alnum_only: "normalized_text s = alnum_only (lower s)"
  unfolding normalized_text_def alnum_only_def lower_def
  by (rule filter_cong) (auto simp: is_lower_alpha_def is_digit_def)

lemma any_key_in_iff:
  "any_key_in keys s \<longleftrightarrow> (\<exists>key \<in> set keys. \<exists>pre post. s = pre @ key @ post)"
  by (simp add: any_key_in_def list_ex_iff str_contains_iff)

lemma keyword_cells_hits:
  "card (keyword_cells lib ws r) = row_hits lib ws (min (max_column ws) 80) r"
  by (simp only: keyword_cells_def row_hits_card any_key_in_iff normalized_text_alnum_only)

text \<open>
  Claim C6. \<^verbatim>\<open>find_param_header_row\<close> looks at the first 80 rows and 80 columns (fewer
  when the sheet is smaller). It returns no row exactly when every row in that region
  has fewer than 2 cells whose normalized text contains a parameter keyword, and it
  returns \<open>r\<close> exactly when \<open>r\<close> is the first row of the region with at least 2 such
  cells.
\<close>

theorem header_row_first_with_two_hits:
  "(find_param_header_row lib ws = None \<longleftrightarrow>
      (\<forall>r. 1 \<le> r \<and> r \<le> min (max_row ws) 80 \<longrightarrow> card (keyword_cells lib ws r) < 2)) \<and>
   (find_param_header_row lib ws = Some r \<longleftrightarrow>
      1 \<le> r \<and> r \<le> min (max_row ws) 80 \<and> 2 \<le> card (keyword_cells lib ws r) \<and>
      (\<forall>r'. 1 \<le> r' \<and> r' < r \<longrightarrow> card (keyword_cells lib ws r') < 2))"
  unfolding keyword_cells_hits find_param_header_row_def Let_def find_upt_None find_upt_Some
  by (auto simp: not_le)

text \<open>
  A sheet with a title row above the header row. The title holds one keyword; the
  headers of row 2 hold theirs only once the case is lowered and the dots, the hyphen
  and the blanks are removed. The header is row 2.
\<close>

theorem header_row_first_with_two_hits_witness:
  "find_param_header_row failing_lib
     (sheet_of_rows
        [[CStr ''TSS report''],
         [CStr ''Date'', CStr ''T.K.N'', CStr ''c-BOD 5 (mg/L)'', CStr ''T S S''],
         [CDateTime (DateTime 2024 1 15 0 0 0 0), CInt 5, CInt 7, CInt 9]]) = Some 2 \<and>
   2 \<le> card (keyword_cells failing_lib
     (sheet_of_rows
        [[CStr ''TSS report''],
         [CStr ''Date'', CStr ''T.K.N'', CStr ''c-BOD 5 (mg/L)'', CStr ''T S S''],
         [CDateTime (DateTime 2024 1 15 0 0 0 0), CInt 5, CInt 7, CInt 9]]) 2) \<and>
   card (keyword_cells failing_lib
     (sheet_of_rows
        [[CStr ''TSS report''],
         [CStr ''Date'', CStr ''T.K.N'', CStr ''c-BOD 5 (mg/L)'', CStr ''T S S''],
         [CDateTime (DateTime 2024 1 15 0 0 0 0), CInt 5, CInt 7, CInt 9]]) 1) < 2 \<and>
   normalized_text ''c-BOD 5 (mg/L)'' = ''cbod5mgl'' \<and>
   normalized_text ''T.K.N'' = ''tkn''"
  (is "find_param_header_row _ ?ws = _ \<and> _")
proof -
  have e: "find_param_header_row failing_lib ?ws = Some 2" by code_simp
  have n: "normalized_text ''c-BOD 5 (mg/L)'' = ''cbod5mgl''" "normalized_text ''T.K.N'' = ''tkn''"
    by (simp_all add: normalized_text_def lower_char_def)
  have "(1::nat) \<le> 1 \<and> (1::nat) < 2" by simp
  with header_row_first_with_two_hits [of failing_lib ?ws 2] e n
  show ?thesis by blast
qed

section \<open>The date-column locator\<close>

lemma best_step_keeps: "fst best \<noteq> None \<Longrightarrow> fst (best_step lib ws N best c) \<noteq> None"
  by (simp add: best_step_def Let_def)

lemma foldl_best_step_keeps:
  "fst best \<noteq> None \<Longrightarrow> fst (foldl (best_step lib ws N) best cs) \<noteq> None"
proof (induction cs arbitrary: best)
  case Nil
  then show ?case by simp
next
  case (Cons c cs)
  from Cons.IH[OF best_step_keeps[OF Cons.prems]] show ?case by simp
qed

lemma best_step_first: "fst (best_step lib ws N (None, - 1) c) = Some c"
  by (simp add: best_step_def Let_def)

lemma fallback_never_none:
  assumes "1 \<le> max_c"
  shows "fst (foldl (best_step lib ws N) (None, - 1) [1 ..< max_c + 1]) \<noteq> None"
proof -
  from assms have "[1 ..< max_c + 1] = 1 # [Suc 1 ..< max_c + 1]"
    by (intro upt_conv_Cons) simp
  moreover have "fst (best_step lib ws N (None, - 1) 1) \<noteq> None"
    by (simp add: best_step_first)
  ultimately show ?thesis
    using foldl_best_step_keeps by simp
qed

lemma find_date_column_never_none:
  assumes "1 \<le> max_column ws"
  shows "find_date_column lib ws \<noteq> None"
proof -
  from assms have "1 \<le> min (max_column ws) 60" by simp
  from fallback_never_none[OF this] show ?thesis
    by (auto simp: find_date_column_def Let_def split: option.splits)
qed

text \<open>
  Claim C7, evaluated on the code. The sheet below has no cell that contains "date" and
  no cell that parses as a date (the score of both columns is 0), and
  \<^verbatim>\<open>find_date_column\<close> returns column 1 and not "not found": the fallback starts from
  \<^verbatim>\<open>best_score = -1\<close>, so the first column always wins (lemma
  \<open>find_date_column_never_none\<close>).
\<close>

theorem date_column_guessed_without_dates:
  "find_date_column failing_lib
     (sheet_of_rows [[CStr ''Sample'', CStr ''Result''], [CStr ''A'', CStr ''n/a'']]) = Some 1 \<and>
   date_score failing_lib
     (sheet_of_rows [[CStr ''Sample'', CStr ''Result''], [CStr ''A'', CStr ''n/a'']]) 2 1 = 0 \<and>
   date_score failing_lib
     (sheet_of_rows [[CStr ''Sample'', CStr ''Result''], [CStr ''A'', CStr ''n/a'']]) 2 2 = 0"
  by code_simp

section \<open>The date normalizer\<close>

lemma first_parse_skip:
  "\<forall>f \<in> set pre. strptime lib s f = None \<Longrightarrow>
   first_parse lib s (pre @ rest) = first_parse lib s rest"
  by (induction pre) simp_all

lemma first_parse_none:
  "\<forall>f \<in> set fmts. strptime lib s f = None \<Longrightarrow> first_parse lib s fmts = None"
  by (induction fmts) simp_all

lemma first_parse_first:
  assumes "fmts = pre @ fmt # post" "\<forall>f \<in> set pre. strptime lib s f = None"
    "strptime lib s fmt = Some d"
  shows "first_parse lib s fmts = Some d"
  using assms by (simp add: first_parse_skip)

lemma parse_date_cell_str:
  "strip s \<noteq> [] \<Longrightarrow> lower (strip s) \<notin> set NON_DATE_LABELS \<Longrightarrow>
   parse_date_cell lib (CStr s) = first_parse lib (strip s) DATE_PARSE_FORMATS"
  by (simp add: parse_date_cell_def Let_def)

lemma parse_date_cell_num:
  "num_value v = Some x \<Longrightarrow> parse_date_cell lib v = parse_serial lib x"
  by (cases v) (simp_all add: parse_date_cell_def num_value_def)

text \<open>
  Claim C5. The rules of \<^verbatim>\<open>parse_date_cell\<close>, in the order of the source: a datetime
  is returned as it is and a date as midnight of that day; a time of day, an empty cell
  and any other object give no date; a string that is blank or, in lower case, one of
  the labels gives no date; any other string is tried against \<^verbatim>\<open>DATE_PARSE_FORMATS\<close>
  in order, the first format that parses gives the result and no date results when none
  does; a number goes to \<^verbatim>\<open>from_excel\<close>, a time of day from there is no date, and when
  the conversion raises the result is 1899-12-30 plus the number in days. Hence a number
  and a string that the library reads as the same date normalize to the same date.
\<close>

theorem date_normalizer_rules:
  "parse_date_cell lib (CDateTime d) = Some d \<and>
   parse_date_cell lib (CDate (Date y m dd)) = Some (DateTime y m dd 0 0 0 0) \<and>
   parse_date_cell lib (CTime t) = None \<and>
   parse_date_cell lib CNone = None \<and>
   parse_date_cell lib COther = None \<and>
   (strip s = [] \<or> lower (strip s) \<in> set NON_DATE_LABELS \<longrightarrow>
      parse_date_cell lib (CStr s) = None) \<and>
   (strip s \<noteq> [] \<and> lower (strip s) \<notin> set NON_DATE_LABELS \<longrightarrow>
      ((\<forall>f \<in> set DATE_PARSE_FORMATS. strptime lib (strip s) f = None) \<longrightarrow>
         parse_date_cell lib (CStr s) = None) \<and>
      (DATE_PARSE_FORMATS = pre @ fmt # post \<and>
       (\<forall>f \<in> set pre. strptime lib (strip s) f = None) \<and>
       strptime lib (strip s) fmt = Some ds \<longrightarrow>
         parse_date_cell lib (CStr s) = Some ds)) \<and>
   (num_value v = Some x \<longrightarrow>
      (from_excel lib x = Some (ConvDateTime dn) \<longrightarrow> parse_date_cell lib v = Some dn) \<and>
      (from_excel lib x = Some (ConvDate (Date y m dd)) \<longrightarrow>
         parse_date_cell lib v = Some (DateTime y m dd 0 0 0 0)) \<and>
      (from_excel lib x = Some (ConvTime t) \<longrightarrow> parse_date_cell lib v = None) \<and>
      (from_excel lib x = None \<longrightarrow>
         parse_date_cell lib v = add_days lib (DateTime 1899 12 30 0 0 0 0) x) \<and>
      (from_excel lib x = Some (ConvDateTime dn) \<and> strip s \<noteq> [] \<and>
       lower (strip s) \<notin> set NON_DATE_LABELS \<and>
       first_parse lib (strip s) DATE_PARSE_FORMATS = Some dn \<longrightarrow>
         parse_date_cell lib v = parse_date_cell lib (CStr s)))"
proof -
  have simple: "parse_date_cell lib (CDateTime d) = Some d"
    "parse_date_cell lib (CDate (Date y m dd)) = Some (DateTime y m dd 0 0 0 0)"
    "parse_date_cell lib (CTime t) = None" "parse_date_cell lib CNone = None"
    "parse_date_cell lib COther = None"
    by (simp_all add: parse_date_cell_def)
  have label: "strip s = [] \<or> lower (strip s) \<in> set NON_DATE_LABELS \<longrightarrow>
      parse_date_cell lib (CStr s) = None"
    by (auto simp: parse_date_cell_def Let_def)
  have str: "strip s \<noteq> [] \<and> lower (strip s) \<notin> set NON_DATE_LABELS \<longrightarrow>
      ((\<forall>f \<in> set DATE_PARSE_FORMATS. strptime lib (strip s) f = None) \<longrightarrow>
         parse_date_cell lib (CStr s) = None) \<and>
      (DATE_PARSE_FORMATS = pre @ fmt # post \<and>
       (\<forall>f \<in> set pre. strptime lib (strip s) f = None) \<and>
       strptime lib (strip s) fmt = Some ds \<longrightarrow>
         parse_date_cell lib (CStr s) = Some ds)"
    using first_parse_none[of DATE_PARSE_FORMATS lib "strip s"]
      first_parse_first[of DATE_PARSE_FORMATS pre fmt post lib "strip s" ds]
    by (simp add: parse_date_cell_str)
  have num: "num_value v = Some x \<longrightarrow>
      (from_excel lib x = Some (ConvDateTime dn) \<longrightarrow> parse_date_cell lib v = Some dn) \<and>
      (from_excel lib x = Some (ConvDate (Date y m dd)) \<longrightarrow>
         parse_date_cell lib v = Some (DateTime y m dd 0 0 0 0)) \<and>
      (from_excel lib x = Some (ConvTime t) \<longrightarrow> parse_date_cell lib v = None) \<and>
      (from_excel lib x = None \<longrightarrow>
         parse_date_cell lib v = add_days lib (DateTime 1899 12 30 0 0 0 0) x) \<and>
      (from_excel lib x = Some (ConvDateTime dn) \<and> strip s \<noteq> [] \<and>
       lower (strip s) \<notin> set NON_DATE_LABELS \<and>
       first_parse lib (strip s) DATE_PARSE_FORMATS = Some dn \<longrightarrow>
         parse_date_cell lib v = parse_date_cell lib (CStr s))"
    by (auto simp: parse_date_cell_num parse_serial_def parse_date_cell_str excel_epoch_def
          split: option.splits)
  from simple label str num show ?thesis by (intro conjI)
qed

text \<open>The serial 45292 as a number and as the string \<^verbatim>\<open>01-Jan-2024\<close>.\<close>

theorem date_normalizer_rules_witness:
  "parse_date_cell serial_lib (CInt 45292) = Some (DateTime 2024 1 1 0 0 0 0) \<and>
   parse_date_cell serial_lib (CStr '' 01-Jan-2024'') = Some (DateTime 2024 1 1 0 0 0 0) \<and>
   parse_date_cell serial_lib (CInt 45292) =
     parse_date_cell serial_lib (CStr '' 01-Jan-2024'')"
proof -
  let ?D = "DateTime 2024 1 1 0 0 0 0"
  let ?s = "'' 01-Jan-2024''"
  note R = date_normalizer_rules [where lib = serial_lib and s = ?s and pre = "[]"
      and fmt = "''%d-%b-%Y''" and post = "tl DATE_PARSE_FORMATS" and ds = ?D
      and v = "CInt 45292" and x = 45292 and dn = ?D]
  have h1: "strip ?s \<noteq> []" by code_simp
  have h2: "lower (strip ?s) \<notin> set NON_DATE_LABELS" by code_simp
  have h3: "DATE_PARSE_FORMATS = [] @ ''%d-%b-%Y'' # tl DATE_PARSE_FORMATS"
    by (simp add: DATE_PARSE_FORMATS_def)
  have h4: "strptime serial_lib (strip ?s) ''%d-%b-%Y'' = Some ?D" by code_simp
  have h5: "num_value (CInt 45292) = Some 45292" by (simp add: num_value_def)
  have h6: "from_excel serial_lib 45292 = Some (ConvDateTime ?D)"
    by (simp add: serial_lib_def)
  from R h1 h2 h3 h4 h5 h6 show ?thesis by simp
qed

section \<open>The months of the window and their year\<close>

lemma targets_share_year:
  "targets_of year ms = Inr ts \<Longrightarrow> (m, t) \<in> set ts \<Longrightarrow>
   \<exists>name. t = name @ '' '' @ last_two (str_int year)"
proof (induction ms arbitrary: ts)
  case Nil
  then show ?case by simp
next
  case (Cons a ms)
  then show ?case
    by (auto simp: flow_target_def split: sum.splits)
qed

lemma calendar_walk_nonempty: "calendar_walk s e \<noteq> []"
  by (simp add: calendar_walk_def)

lemma calendar_walk_contiguous:
  assumes "Suc k < length (calendar_walk s e)"
  shows "calendar_walk s e ! Suc k = calendar_walk s e ! k mod 12 + 1"
proof -
  from assms have k: "Suc k < (e + 12 - s) mod 12 + 1" by (simp add: calendar_walk_def)
  then have "calendar_walk s e ! Suc k = (s - 1 + Suc k) mod 12 + 1"
    "calendar_walk s e ! k = (s - 1 + k) mod 12 + 1"
    unfolding calendar_walk_def by (simp_all del: upt_Suc)
  moreover have "(s - 1 + Suc k) mod 12 = ((s - 1 + k) mod 12 + 1) mod 12"
    by (simp add: mod_Suc_eq Suc_eq_plus1[symmetric] del: Suc_eq_plus1)
  ultimately show ?thesis by simp
qed

lemma span_january_june:
  "span_months [''January'', ''June''] ''January'' =
     Some (Inr [''June'', ''July'', ''August'', ''September'', ''October'', ''November'',
                ''December'', ''January''])"
proof -
  have "months_loop 6 1 [] = Some (Inr ([] @ map month_name (calendar_walk 6 1)))"
    by (rule months_loop_walk) simp_all
  then show ?thesis
    by (simp add: span_months_def previous_visit_month_def months_between_inclusive_def
          MONTH_TO_NUM_eq calendar_walk_def month_name_def MONTHS_FULL_def upt_rec)
qed

lemma csv_january_june:
  "months_csv_of [''June'', ''July'', ''August'', ''September'', ''October'', ''November'',
                ''December'', ''January''] = Inr ''6,7,8,9,10,11,12,1''"
  by (simp add: months_csv_of_def MONTH_TO_NUM_eq str_int_def str_nat.simps digit_char_def)

lemma two_digit_2024: "last_two (str_int 2024) = ''24''"
  by (simp add: last_two_def str_int_def str_nat.simps digit_char_def)

lemma months_january_june: "flow_months ''6,7,8,9,10,11,12,1'' = Inr [6, 7, 8, 9, 10, 11, 12, 1]"
  by (simp add: flow_months_def py_int_def py_int_digits_def strip_def is_space_def
        is_digit_def digits_val_def digit_val_def)

lemma targets_2024:
  "targets_of 2024 [1, 6, 7, 8, 9, 10, 11, 12] =
     Inr [(1, ''Jan 24''), (6, ''Jun 24''), (7, ''Jul 24''), (8, ''Aug 24''), (9, ''Sep 24''),
          (10, ''Oct 24''), (11, ''Nov 24''), (12, ''Dec 24'')]"
  by (simp add: flow_target_def py_nth_def MONTHS_FULL_def two_digit_2024 title_def
        is_alpha_def is_lower_alpha_def lower_char_def upper_char_def)

text \<open>
  Claim C3, evaluated on the code. For the schedule January, June and the report of
  January 2024 the span is June to January, \<^verbatim>\<open>run_summary\<close> passes the month numbers
  \<^verbatim>\<open>6,7,8,9,10,11,12,1\<close> with the single year 2024, and \<^verbatim>\<open>FlowData.main\<close> sorts them and
  looks every month up under that year: June to December are sought as "Jun 24" to
  "Dec 24" and not under 2023 (lemma \<open>targets_share_year\<close>: every target ends with the two
  digits of the one year). The month numbers themselves are contiguous and at least one
  (lemmas \<open>calendar_walk_nonempty\<close>, \<open>calendar_walk_contiguous\<close>).
\<close>

theorem flow_months_share_one_year:
  "span_months [''January'', ''June''] ''January'' =
     Some (Inr [''June'', ''July'', ''August'', ''September'', ''October'', ''November'',
                ''December'', ''January'']) \<and>
   months_csv_of [''June'', ''July'', ''August'', ''September'', ''October'', ''November'',
                ''December'', ''January''] = Inr ''6,7,8,9,10,11,12,1'' \<and>
   flow_targets ''6,7,8,9,10,11,12,1'' 2024 =
     Inr [(1, ''Jan 24''), (6, ''Jun 24''), (7, ''Jul 24''), (8, ''Aug 24''), (9, ''Sep 24''),
          (10, ''Oct 24''), (11, ''Nov 24''), (12, ''Dec 24'')]"
proof -
  have "sort [6, 7, 8, 9, 10, 11, 12, 1 :: int] = [1, 6, 7, 8, 9, 10, 11, 12]" by simp
  then have "flow_targets ''6,7,8,9,10,11,12,1'' 2024 =
     Inr [(1, ''Jan 24''), (6, ''Jun 24''), (7, ''Jul 24''), (8, ''Aug 24''), (9, ''Sep 24''),
          (10, ''Oct 24''), (11, ''Nov 24''), (12, ''Dec 24'')]"
    by (simp only: flow_targets_def months_january_june targets_2024 sum.case)
  with span_january_june csv_january_june show ?thesis by (intro conjI)
qed

section \<open>Threshold classification\<close>





subsection \<open>Spacing and density of the binary64 numbers\<close>







subsection \<open>The product of the literal 0.9 and the threshold\<close>








section \<open>Order of the plotted points\<close>

lemma set_dict_set: "set (dict_set k v ps) \<subseteq> insert (k, v) (set ps)"
  by (induction ps) auto

lemma clean_step_entries:
  assumes "\<forall>e \<in> set clean. P e" "P (fst kp, sort_key (\<lambda>x. dt_key (fst x)) (snd kp))"
  shows "\<forall>e \<in> set (clean_step clean kp). P e"
proof (cases kp)
  case (Pair k pts)
  with assms set_dict_set[of k "sort_key (\<lambda>x. dt_key (fst x)) pts" clean]
  show ?thesis by (auto simp: clean_step_def Let_def)
qed

lemma foldl_clean_entries:
  "\<forall>e \<in> set clean. P e \<Longrightarrow>
   \<forall>kp \<in> set series. P (fst kp, sort_key (\<lambda>x. dt_key (fst x)) (snd kp)) \<Longrightarrow>
   \<forall>e \<in> set (foldl clean_step clean series). P e"
proof (induction series arbitrary: clean)
  case Nil
  then show ?case by simp
next
  case (Cons kp series)
  from Cons.prems have "\<forall>e \<in> set (clean_step clean kp). P e"
    by (intro clean_step_entries) simp_all
  from Cons.IH[OF this] Cons.prems(2) show ?case by simp
qed

lemma plot_series_sorted:
  assumes "plot_series_to_doc series = Some clean" "(k, pts) \<in> set clean"
  shows "sorted (map (\<lambda>x. dt_key (fst x)) pts) \<and>
         (\<exists>pts0. (k, pts0) \<in> set series \<and> mset pts = mset pts0)"
proof -
  let ?P = "\<lambda>e. sorted (map (\<lambda>x. dt_key (fst x)) (snd e)) \<and>
         (\<exists>pts0. (fst e, pts0) \<in> set series \<and> mset (snd e) = mset pts0)"
  have "?P (fst kp, sort_key (\<lambda>x. dt_key (fst x)) (snd kp))" if "kp \<in> set series" for kp
  proof -
    from that have "(fst kp, snd kp) \<in> set series" by simp
    then have "\<exists>pts0. (fst kp, pts0) \<in> set series \<and>
        mset (sort_key (\<lambda>x. dt_key (fst x)) (snd kp)) = mset pts0"
      by (intro exI[of _ "snd kp"]) simp
    then show ?thesis by simp
  qed
  then have "\<forall>kp \<in> set series. ?P (fst kp, sort_key (\<lambda>x. dt_key (fst x)) (snd kp))"
    by blast
  then have "\<forall>e \<in> set (foldl clean_step [] series). ?P e"
    by (intro foldl_clean_entries) simp_all
  moreover from assms(1) have "clean = foldl clean_step [] series"
    by (simp add: plot_series_to_doc_def Let_def split: if_splits)
  ultimately show ?thesis using assms(2) by fastforce
qed

text \<open>
  Claim C9, evaluated on the code. \<^verbatim>\<open>plot_series_to_doc\<close> of SGSData.py sorts every
  series by timestamp (lemma \<open>plot_series_sorted\<close>: what is drawn is sorted and is a
  permutation of the extracted points). The chart of FlowData.py is not sorted: for a
  sheet whose rows are dated 2 January and then 1 January, the days plotted are 2, 1,
  in the order of the rows.
\<close>

theorem flow_chart_keeps_row_order:
  "flow_output failing_lib
     (sheet_of_rows
        [[CStr ''Date'', CStr ''Flow''],
         [CDateTime (DateTime 2024 1 2 0 0 0 0), CInt 5],
         [CDateTime (DateTime 2024 1 1 0 0 0 0), CInt 7],
         [CStr ''Average'', CInt 6]])
     1 4 2 (Some 1) None =
   Some \<lparr>plot_days = [2, 1], plot_values = [5, 7], summary = None\<rparr>"
  by code_simp

section \<open>The rows of the table and the six-month window\<close>

lemma ym_add_month_range: "1 \<le> snd (ym_add y m k) \<and> snd (ym_add y m k) \<le> 12"
  by (simp add: ym_add_def)

lemma ym_add_index:
  "fst (ym_add y m k) * 12 + snd (ym_add y m k) - 1 = y * 12 + m - 1 + k"
proof -
  have "(m - 1 + k) div 12 * 12 + (m - 1 + k) mod 12 = m - 1 + k" by simp
  then show ?thesis by (simp add: ym_add_def algebra_simps)
qed

lemma index_unique:
  assumes "y * 12 + m = y' * 12 + (m'::int)" "1 \<le> m" "m \<le> 12" "1 \<le> m'" "m' \<le> 12"
  shows "y = y' \<and> m = m'"
proof -
  define z where "z = y - y'"
  from assms(1) have eq: "12 * z = m' - m" by (simp add: z_def algebra_simps)
  with assms(2-5) have "- 12 < 12 * z" "12 * z < 12" by linarith+
  then have "- 1 < z" "z < 1" by simp_all
  then have "z = 0" by simp
  with eq show ?thesis by (simp add: z_def)
qed

lemma ym_le_index:
  assumes "1 \<le> m" "m \<le> 12" "1 \<le> m'" "m' \<le> (12::int)"
  shows "(y < y' \<or> y = y' \<and> m \<le> m') \<longleftrightarrow> y * 12 + m \<le> y' * 12 + m'"
proof
  assume "y < y' \<or> y = y' \<and> m \<le> m'"
  then show "y * 12 + m \<le> y' * 12 + m'"
  proof
    assume "y < y'"
    then have "y + 1 \<le> y'" by simp
    then have "(y + 1) * 12 \<le> y' * 12" by simp
    with assms show ?thesis by (simp add: algebra_simps)
  next
    assume "y = y' \<and> m \<le> m'"
    then show ?thesis by simp
  qed
next
  assume le: "y * 12 + m \<le> y' * 12 + m'"
  show "y < y' \<or> y = y' \<and> m \<le> m'"
  proof (rule ccontr)
    assume "\<not> (y < y' \<or> y = y' \<and> m \<le> m')"
    then have "y' < y \<or> y = y' \<and> m' < m" by auto
    then show False
    proof
      assume "y' < y"
      then have "y' + 1 \<le> y" by simp
      then have "(y' + 1) * 12 \<le> y * 12" by simp
      with assms le show False by (simp add: algebra_simps)
    next
      assume "y = y' \<and> m' < m"
      with le show False by simp
    qed
  qed
qed

lemma ym_add_succ:
  assumes "ym_add y m 1 = (ny, nm)" "ym_add y m 0 = (ey, em)"
  shows "(nm > 1 \<longrightarrow> ey = ny \<and> em = nm - 1) \<and> (\<not> nm > 1 \<longrightarrow> nm = 1 \<and> ey = ny - 1 \<and> em = 12)"
proof -
  have n: "ny * 12 + nm - 1 = y * 12 + m - 1 + 1" "1 \<le> nm" "nm \<le> 12"
    using ym_add_index[of y m 1] ym_add_month_range[of y m 1] assms(1) by simp_all
  have e: "ey * 12 + em - 1 = y * 12 + m - 1 + 0" "1 \<le> em" "em \<le> 12"
    using ym_add_index[of y m 0] ym_add_month_range[of y m 0] assms(2) by simp_all
  show ?thesis
  proof (cases "nm > 1")
    case True
    from n e have "ey * 12 + em = ny * 12 + (nm - 1)" by simp
    from index_unique[OF this] e n True show ?thesis by simp
  next
    case False
    with n have nm1: "nm = 1" by simp
    with n e have "ey * 12 + em = (ny - 1) * 12 + 12" by simp
    from index_unique[OF this] e nm1 show ?thesis by simp
  qed
qed

lemma month_end_last_day:
  assumes "month_end year month = Inr end_dt" "ym_add year month 0 = (ey, em)"
  shows "end_dt = DateTime ey em (days_in_month ey em) 0 0 0 0"
proof -
  obtain ny nm where nx: "ym_add year month 1 = (ny, nm)" by (cases "ym_add year month 1")
  from ym_add_succ[OF nx assms(2)]
  have c: "(nm > 1 \<longrightarrow> ey = ny \<and> em = nm - 1) \<and> (\<not> nm > 1 \<longrightarrow> nm = 1 \<and> ey = ny - 1 \<and> em = 12)" .
  from assms(1) nx obtain d where d: "mk_datetime ny nm 1 = Inr d" "minus_one_day d = Inr end_dt"
    by (auto simp: month_end_def split: sum.splits)
  from d(1) have dd: "d = DateTime ny nm 1 0 0 0 0"
    by (simp add: mk_datetime_def split: if_splits)
  from d(2) c show ?thesis unfolding dd
    by (auto simp: minus_one_day_def days_in_month_def split: if_splits)
qed

lemma window_bounds_dates:
  assumes "window_bounds sel_year sel_month = Inr (start_dt, end_dt)"
    "ym_add sel_year sel_month (- 5) = (sy, sm)" "ym_add sel_year sel_month 0 = (ey, em)"
  shows "start_dt = DateTime sy sm 1 0 0 0 0 \<and>
         end_dt = DateTime ey em (days_in_month ey em) 0 0 0 0"
proof -
  from assms(1,2) have s: "month_start sy sm = Inr start_dt" and e: "month_end sel_year sel_month = Inr end_dt"
    by (auto simp: window_bounds_def split: sum.splits)
  from s have "start_dt = DateTime sy sm 1 0 0 0 0"
    by (simp add: month_start_def mk_datetime_def split: if_splits)
  with month_end_last_day[OF e assms(3)] show ?thesis by simp
qed

lemma after_month_start:
  assumes "valid_datetime d" "1 \<le> sm" "sm \<le> 12"
  shows "dt_le (DateTime sy sm 1 0 0 0 0) d \<longleftrightarrow> sy * 12 + sm - 1 \<le> month_index d"
proof (cases d)
  case (DateTime y m dd hh mi ss us)
  with assms(1) have v: "1 \<le> m" "m \<le> 12" "1 \<le> dd" "0 \<le> hh" "0 \<le> mi" "0 \<le> ss" "0 \<le> us"
    by (simp_all add: valid_datetime_def)
  have "dt_le (DateTime sy sm 1 0 0 0 0) d \<longleftrightarrow> (sy < y \<or> sy = y \<and> sm \<le> m)"
    unfolding DateTime using v by (auto simp: dt_le_def dt_key_def)
  also have "\<dots> \<longleftrightarrow> sy * 12 + sm \<le> y * 12 + m"
    by (rule ym_le_index[OF assms(2,3) v(1,2)])
  finally have "dt_le (DateTime sy sm 1 0 0 0 0) d \<longleftrightarrow> sy * 12 + sm \<le> y * 12 + m" .
  moreover have "month_index d = y * 12 + m - 1" unfolding DateTime by (simp add: month_index_def)
  ultimately show ?thesis by linarith
qed

lemma before_month_end:
  assumes "dt_le d (DateTime ey em last_day 0 0 0 0)" "1 \<le> dt_month d" "dt_month d \<le> 12"
    "1 \<le> em" "em \<le> 12"
  shows "month_index d \<le> ey * 12 + em - 1"
proof (cases d)
  case (DateTime y m dd hh mi ss us)
  with assms(1) have "y < ey \<or> y = ey \<and> m \<le> em"
    by (auto simp: dt_le_def dt_key_def)
  with ym_le_index[of m em y ey] assms(2-5) DateTime
  have "y * 12 + m \<le> ey * 12 + em" by simp
  then show ?thesis unfolding DateTime by (simp add: month_index_def)
qed

lemma midnight_before_month_end:
  assumes "valid_datetime d" "at_midnight d" "1 \<le> em" "em \<le> 12"
    "month_index d \<le> ey * 12 + em - 1"
  shows "dt_le d (DateTime ey em (days_in_month ey em) 0 0 0 0)"
proof (cases d)
  case (DateTime y m dd hh mi ss us)
  with assms(1,2) have v: "1 \<le> m" "m \<le> 12" "dd \<le> days_in_month y m"
    "hh = 0" "mi = 0" "ss = 0" "us = 0"
    by (simp_all add: valid_datetime_def at_midnight_def)
  from assms(5) DateTime have "y * 12 + m \<le> ey * 12 + em" by (simp add: month_index_def)
  with ym_le_index[OF v(1,2) assms(3,4), of y ey] have "y < ey \<or> y = ey \<and> m \<le> em" by simp
  with v show ?thesis unfolding DateTime
    by (auto simp: dt_le_def dt_key_def)
qed

lemma set_map_filter_Some:
  "set (List.map_filter f xs) = {y. \<exists>x \<in> set xs. f x = Some y}"
  by (induction xs) (auto simp: map_filter_simps split: option.splits)

lemma set_dated_rows:
  "set (dated_rows lib ws date_col start_row) =
     {(r, d). start_row \<le> r \<and> r \<le> max_row ws \<and>
              parse_date_cell lib (cell_value ws r date_col) = Some d}"
  unfolding dated_rows_def set_map_filter_Some by auto

lemma set_window_rows:
  "set (window_rows start_dt end_dt rows) =
     {(r, d). (r, d) \<in> set rows \<and> dt_le start_dt d \<and> dt_le d end_dt}"
  by (auto simp: window_rows_def)

lemma midnight_or_earlier_before_month_end:
  assumes "valid_datetime d" "1 \<le> em" "em \<le> 12"
    "month_index d \<le> ey * 12 + em - 1"
    "month_index d < ey * 12 + em - 1 \<or>
     dt_day d < days_in_month (dt_year d) (dt_month d) \<or> at_midnight d"
  shows "dt_le d (DateTime ey em (days_in_month ey em) 0 0 0 0)"
proof (cases "at_midnight d")
  case True
  from midnight_before_month_end[OF assms(1) True assms(2-4)] show ?thesis .
next
  case False
  obtain y m dd hh mi ss us where d: "d = DateTime y m dd hh mi ss us" by (cases d)
  from assms(1) have v: "1 \<le> m" "m \<le> 12" by (simp_all add: valid_datetime_def d)
  from assms(4) have "y * 12 + m \<le> ey * 12 + em" by (simp add: month_index_def d)
  with ym_le_index[OF v assms(2,3), of y ey] have le: "y < ey \<or> y = ey \<and> m \<le> em" by simp
  from assms(5) False have "y * 12 + m < ey * 12 + em \<or> dd < days_in_month y m"
    by (simp add: month_index_def d)
  then have "y < ey \<or> y = ey \<and> m < em \<or> y = ey \<and> m = em \<and> dd < days_in_month ey em"
    using le by auto
  then show ?thesis unfolding d by (auto simp: dt_le_def dt_key_def)
qed

subsection \<open>The latest date\<close>

lemma foldl_max_key:
  fixes key :: "'a \<Rightarrow> 'k::linorder"
  shows "foldl (\<lambda>a b. if key a < key b then b else a) a xs \<in> set (a # xs) \<and>
         (\<forall>x \<in> set (a # xs). key x \<le> key (foldl (\<lambda>a b. if key a < key b then b else a) a xs))"
proof (induction xs arbitrary: a)
  case Nil
  show ?case by simp
next
  case (Cons x xs)
  let ?f = "\<lambda>a b. if key a < key b then b else a"
  from Cons.IH[of "?f a x"]
  have m: "foldl ?f (?f a x) xs \<in> set (?f a x # xs)"
    and u: "\<forall>z \<in> set (?f a x # xs). key z \<le> key (foldl ?f (?f a x) xs)" by simp_all
  from m have 1: "foldl ?f a (x # xs) \<in> set (a # x # xs)" by (auto split: if_splits)
  from u have k: "key (?f a x) \<le> key (foldl ?f (?f a x) xs)" by simp
  have "key a \<le> key (?f a x)" "key x \<le> key (?f a x)" by auto
  with k have "key a \<le> key (foldl ?f (?f a x) xs)" "key x \<le> key (foldl ?f (?f a x) xs)"
    by (blast intro: order_trans)+
  with u have 2: "\<forall>z \<in> set (a # x # xs). key z \<le> key (foldl ?f a (x # xs))" by simp
  from 1 2 show ?case by blast
qed

lemma dt_max_latest:
  assumes "ds \<noteq> []"
  shows "dt_max ds \<in> set ds \<and> (\<forall>d \<in> set ds. dt_key d \<le> dt_key (dt_max ds))"
proof -
  from assms have ds: "hd ds # tl ds = ds" by simp
  from foldl_max_key[of dt_key "hd ds" "tl ds"] show ?thesis
    unfolding dt_max_def ds .
qed

subsection \<open>The entries of a chart\<close>

lemma map_of_dict_set: "map_of (dict_set k v ps) = (map_of ps)(k \<mapsto> v)"
  by (induction ps) (auto simp: fun_eq_iff)

lemma keys_dict_set: "fst ` set (dict_set k v ps) = insert k (fst ` set ps)"
  by (induction ps) auto

lemma distinct_dict_set:
  "distinct (map fst ps) \<Longrightarrow> distinct (map fst (dict_set k v ps))"
proof (induction ps)
  case Nil
  show ?case by simp
next
  case (Cons p ps)
  show ?case
  proof (cases "fst p = k")
    case True
    with Cons.prems show ?thesis by simp
  next
    case False
    from Cons.prems have "fst p \<notin> fst ` set ps" "distinct (map fst ps)" by simp_all
    with Cons.IH False keys_dict_set[of k v ps] show ?thesis by simp
  qed
qed

lemma map_of_series_step:
  "map_of (series_step lib ws rows series col) =
     (if column_points lib ws rows (col_index col) \<noteq> []
      then (map_of series)(col_label col \<mapsto> column_points lib ws rows (col_index col))
      else map_of series)"
  by (simp add: series_step_def Let_def map_of_dict_set)

lemma distinct_series_step:
  "distinct (map fst series) \<Longrightarrow> distinct (map fst (series_step lib ws rows series col))"
  by (simp add: series_step_def Let_def distinct_dict_set)

lemma distinct_foldl_series:
  "distinct (map fst series) \<Longrightarrow>
   distinct (map fst (foldl (series_step lib ws rows) series cols))"
  by (induction cols arbitrary: series) (simp_all add: distinct_series_step)

lemma foldl_series_other:
  "k \<notin> col_label ` set cols \<Longrightarrow>
   map_of (foldl (series_step lib ws rows) series cols) k = map_of series k"
  by (induction cols arbitrary: series) (simp_all add: map_of_series_step)

lemma foldl_series_entry:
  assumes "distinct (map col_label cols)" "col \<in> set cols"
    "column_points lib ws rows (col_index col) \<noteq> []"
  shows "map_of (foldl (series_step lib ws rows) series cols) (col_label col) =
         Some (column_points lib ws rows (col_index col))"
  using assms
proof (induction cols arbitrary: series)
  case Nil
  then show ?case by simp
next
  case (Cons c cols)
  show ?case
  proof (cases "col = c")
    case True
    from Cons.prems(1) True have "col_label col \<notin> col_label ` set cols" by simp
    from foldl_series_other[OF this] Cons.prems(3) True show ?thesis
      by (simp add: map_of_series_step)
  next
    case False
    with Cons.prems have "distinct (map col_label cols)" "col \<in> set cols" by simp_all
    from Cons.IH[OF this Cons.prems(3)] show ?thesis by simp
  qed
qed

lemma sort_key_Nil_iff: "sort_key f xs = [] \<longleftrightarrow> xs = []"
  using length_sort[of f xs] by (metis length_0_conv)

lemma map_of_clean_step:
  "map_of (clean_step clean (k, pts)) =
     (if pts \<noteq> [] then (map_of clean)(k \<mapsto> sort_key (\<lambda>x. dt_key (fst x)) pts)
      else map_of clean)"
  by (simp add: clean_step_def Let_def map_of_dict_set sort_key_Nil_iff)

lemma foldl_clean_other:
  "k \<notin> fst ` set series \<Longrightarrow> map_of (foldl clean_step clean series) k = map_of clean k"
proof (induction series arbitrary: clean)
  case Nil
  show ?case by simp
next
  case (Cons kp series)
  obtain k' pts where kp: "kp = (k', pts)" by (cases kp)
  from Cons.prems have "k \<noteq> k'" "k \<notin> fst ` set series" by (simp_all add: kp)
  with Cons.IH[of "clean_step clean kp"] show ?case by (simp add: kp map_of_clean_step)
qed

lemma foldl_clean_entry:
  assumes "distinct (map fst series)" "(k, pts) \<in> set series" "pts \<noteq> []"
  shows "map_of (foldl clean_step clean series) k = Some (sort_key (\<lambda>x. dt_key (fst x)) pts)"
  using assms
proof (induction series arbitrary: clean)
  case Nil
  then show ?case by simp
next
  case (Cons kp series)
  show ?case
  proof (cases "kp = (k, pts)")
    case True
    from Cons.prems(1) True have "k \<notin> fst ` set series" by simp
    from foldl_clean_other[OF this] Cons.prems(3) True show ?thesis
      by (simp add: map_of_clean_step)
  next
    case False
    with Cons.prems have "distinct (map fst series)" "(k, pts) \<in> set series" by simp_all
    from Cons.IH[OF this Cons.prems(3)] show ?thesis by simp
  qed
qed

lemma set_column_points:
  "set (column_points lib ws rows c) =
     {(d, v). \<exists>r. (r, d) \<in> set rows \<and> py_float lib (cell_value ws r c) = Some v}"
proof -
  have "(d, v) \<in> set (column_points lib ws rows c) \<longleftrightarrow>
        (\<exists>r. (r, d) \<in> set rows \<and> py_float lib (cell_value ws r c) = Some v)" for d v
  proof
    assume "(d, v) \<in> set (column_points lib ws rows c)"
    then obtain x where "x \<in> set rows"
      "map_option (\<lambda>v. (snd x, v)) (py_float lib (cell_value ws (fst x) c)) = Some (d, v)"
      unfolding column_points_def set_map_filter_Some by (auto simp: split_beta)
    then have "(fst x, d) \<in> set rows \<and> py_float lib (cell_value ws (fst x) c) = Some v"
      by (cases x) auto
    then show "\<exists>r. (r, d) \<in> set rows \<and> py_float lib (cell_value ws r c) = Some v" by blast
  next
    assume "\<exists>r. (r, d) \<in> set rows \<and> py_float lib (cell_value ws r c) = Some v"
    then obtain r where r: "(r, d) \<in> set rows" "py_float lib (cell_value ws r c) = Some v"
      by blast
    then have "(case (r, d) of (r, d) \<Rightarrow>
        map_option (\<lambda>v. (d, v)) (py_float lib (cell_value ws r c))) = Some (d, v)" by simp
    with r(1) show "(d, v) \<in> set (column_points lib ws rows c)"
      unfolding column_points_def set_map_filter_Some by blast
  qed
  then show ?thesis by auto
qed

lemma series_step_entries:
  assumes "\<forall>e \<in> set series. P e" "P (col_label col, column_points lib ws rows (col_index col))"
  shows "\<forall>e \<in> set (series_step lib ws rows series col). P e"
  using assms set_dict_set[of "col_label col" "column_points lib ws rows (col_index col)" series]
  by (auto simp: series_step_def Let_def)

lemma foldl_series_entries:
  "\<forall>e \<in> set series. P e \<Longrightarrow>
   \<forall>col \<in> set cols. P (col_label col, column_points lib ws rows (col_index col)) \<Longrightarrow>
   \<forall>e \<in> set (foldl (series_step lib ws rows) series cols). P e"
proof (induction cols arbitrary: series)
  case Nil
  then show ?case by simp
next
  case (Cons col cols)
  from Cons.prems have "\<forall>e \<in> set (series_step lib ws rows series col). P e"
    by (intro series_step_entries) simp_all
  from Cons.IH[OF this] Cons.prems(2) show ?case by simp
qed

text \<open>Every point of a chart is the cell of a window row in a column of the group.\<close>

lemma group_graph_points:
  assumes "group_graph lib ws rows cols = Some g" "(k, pts) \<in> set g" "(d, v) \<in> set pts"
  shows "\<exists>r col. (r, d) \<in> set rows \<and> col \<in> set cols \<and> col_label col = k \<and>
           py_float lib (cell_value ws r (col_index col)) = Some v"
proof -
  let ?series = "foldl (series_step lib ws rows) [] cols"
  let ?P = "\<lambda>e. \<forall>x \<in> set (snd e). \<exists>r col. (r, fst x) \<in> set rows \<and> col \<in> set cols \<and>
           col_label col = fst e \<and> py_float lib (cell_value ws r (col_index col)) = Some (snd x)"
  from assms(1) have p: "plot_series_to_doc ?series = Some g"
    by (simp add: group_graph_def Let_def split: if_splits)
  from plot_series_sorted[OF p assms(2)] obtain pts0 where
    pts0: "(k, pts0) \<in> set ?series" "mset pts = mset pts0" by blast
  from pts0(2) have "set pts = set pts0" by (rule mset_eq_setD)
  with assms(3) have dv: "(d, v) \<in> set pts0" by simp
  have "\<forall>col \<in> set cols. ?P (col_label col, column_points lib ws rows (col_index col))"
    by (auto simp: set_column_points)
  then have "\<forall>e \<in> set ?series. ?P e"
    by (intro foldl_series_entries) simp_all
  with pts0(1) have "?P (k, pts0)" by blast
  with dv show ?thesis by fastforce
qed

text \<open>
  When the labels of the group are distinct, every window row whose cell \<^verbatim>\<open>float\<close>
  accepts is a point of the series of its column.
\<close>

lemma group_graph_includes:
  assumes "distinct (map col_label cols)" "col \<in> set cols" "(r, d) \<in> set rows"
    "py_float lib (cell_value ws r (col_index col)) = Some v"
  shows "\<exists>g pts. group_graph lib ws rows cols = Some g \<and> (col_label col, pts) \<in> set g \<and>
           (d, v) \<in> set pts"
proof -
  let ?pts = "column_points lib ws rows (col_index col)"
  let ?series = "foldl (series_step lib ws rows) [] cols"
  let ?clean = "foldl clean_step [] ?series"
  from assms(3,4) have dv: "(d, v) \<in> set ?pts" by (auto simp: set_column_points)
  then have ne: "?pts \<noteq> []" by auto
  from foldl_series_entry[OF assms(1,2) ne]
  have "map_of ?series (col_label col) = Some ?pts" .
  then have s: "(col_label col, ?pts) \<in> set ?series" by (rule map_of_SomeD)
  have "distinct (map fst ?series)" by (rule distinct_foldl_series) simp
  from foldl_clean_entry[OF this s ne]
  have "map_of ?clean (col_label col) = Some (sort_key (\<lambda>x. dt_key (fst x)) ?pts)" .
  then have c: "(col_label col, sort_key (\<lambda>x. dt_key (fst x)) ?pts) \<in> set ?clean"
    by (rule map_of_SomeD)
  from s have "?series \<noteq> []" by auto
  moreover from c have "?clean \<noteq> []" by auto
  moreover from assms(2) have "cols \<noteq> []" by auto
  ultimately have "group_graph lib ws rows cols = Some ?clean"
    by (simp add: group_graph_def plot_series_to_doc_def Let_def)
  moreover from dv have "(d, v) \<in> set (sort_key (\<lambda>x. dt_key (fst x)) ?pts)" by simp
  ultimately show ?thesis using c by blast
qed

lemma table_then_two_graphs_Some:
  assumes "table_then_two_graphs lib ws months_csv year = Inr (Some out)"
    "find_param_header_row lib ws = Some param_row" "find_date_column lib ws = Some date_col"
    "selected_month months_csv year
       (map snd (dated_rows lib ws date_col (data_start_row lib ws param_row))) =
     (sel_month, sel_year)"
  shows "\<exists>start_dt end_dt win cols.
     dated_rows lib ws date_col (data_start_row lib ws param_row) \<noteq> [] \<and>
     window_bounds sel_year sel_month = Inr (start_dt, end_dt) \<and>
     win = window_rows start_dt end_dt
             (dated_rows lib ws date_col (data_start_row lib ws param_row)) \<and>
     cols = selected_columns lib ws param_row date_col win \<and>
     out_headers out = ''Date'' # map col_label cols \<and>
     out_table out =
       map (\<lambda>(r, dt). (dt, r, map (\<lambda>col. cell_value ws r (col_index col)) cols)) win \<and>
     out_graph1 out = group_graph lib ws win (filter in_g1 cols) \<and>
     out_graph2 out = group_graph lib ws win (filter in_g2 cols)"
proof (cases "window_bounds sel_year sel_month")
  case (Inl e)
  with assms show ?thesis
    by (simp add: table_then_two_graphs_def Let_def split: if_splits)
next
  case (Inr b)
  obtain start_dt end_dt where b: "b = (start_dt, end_dt)" by (cases b)
  let ?rows = "dated_rows lib ws date_col (data_start_row lib ws param_row)"
  let ?win = "window_rows start_dt end_dt ?rows"
  let ?cols = "selected_columns lib ws param_row date_col ?win"
  from assms Inr b have ne: "?rows \<noteq> []"
    by (auto simp: table_then_two_graphs_def Let_def split: if_splits)
  from assms Inr b have
    "out = \<lparr>out_headers = ''Date'' # map col_label ?cols,
           out_table = map (\<lambda>(r, dt). (dt, r, map (\<lambda>col. cell_value ws r (col_index col)) ?cols)) ?win,
           out_graph1 = group_graph lib ws ?win (filter in_g1 ?cols),
           out_graph2 = group_graph lib ws ?win (filter in_g2 ?cols)\<rparr>"
    by (simp add: table_then_two_graphs_def Let_def split: if_splits)
  then have "out_headers out = ''Date'' # map col_label ?cols"
    "out_table out =
       map (\<lambda>(r, dt). (dt, r, map (\<lambda>col. cell_value ws r (col_index col)) ?cols)) ?win"
    "out_graph1 out = group_graph lib ws ?win (filter in_g1 ?cols)"
    "out_graph2 out = group_graph lib ws ?win (filter in_g2 ?cols)"
    by simp_all
  with Inr b ne show ?thesis by blast
qed

lemma in_out_table:
  assumes "out_table out =
       map (\<lambda>(r, dt). (dt, r, map (\<lambda>col. cell_value ws r (col_index col)) cols)) win"
  shows "(d, r, cells) \<in> set (out_table out) \<longleftrightarrow>
         (r, d) \<in> set win \<and> cells = map (\<lambda>col. cell_value ws r (col_index col)) cols"
  unfolding assms by auto

lemma rows_of_out_table:
  assumes "out_table out =
       map (\<lambda>(r, dt). (dt, r, map (\<lambda>col. cell_value ws r (col_index col)) cols)) win"
  shows "map (\<lambda>(d, r, cells). (r, d)) (out_table out) = win"
  unfolding assms by (induction win) auto

lemma selected_columns_grouped:
  "col \<in> set (selected_columns lib ws param_row date_col rows) \<Longrightarrow> in_g1 col \<or> in_g2 col"
proof -
  assume "col \<in> set (selected_columns lib ws param_row date_col rows)"
  then obtain c where "column_of lib ws param_row date_col rows c = Some col"
    unfolding selected_columns_def set_map_filter_Some by blast
  then show ?thesis
    by (auto simp: column_of_def Let_def split: if_splits)
qed

text \<open>
  Claim C1, as amended. When \<^verbatim>\<open>table_then_two_graphs\<close> produces output for a sheet, the
  window is the six calendar months that end with the selected month, not the month set
  of the command line. The selected month is the last month number of \<^verbatim>\<open>months_csv\<close>
  in the given year, or the month of the latest date of the data rows when there is
  none. A row of the table is a data row (from \<^verbatim>\<open>start_row\<close> on) whose date cell
  normalizes to a date in these six months, with the cells of the selected columns; every
  data row whose normalized date lies in these six months is in the table, whatever its
  time of day (nothing is said of a date on the last day of the selected month after
  00:00). Every point of the two charts is the cell of a table row in a selected column
  of that chart's group, and, when the labels of a group are distinct, every cell
  of a table row in a column of the group that \<^verbatim>\<open>float\<close> accepts is a point of the series
  of that column; every selected column is in one of the groups.
\<close>

theorem table_rows_in_lookback_window:
  assumes "table_then_two_graphs lib ws months_csv year = Inr (Some out)"
    and "find_param_header_row lib ws = Some param_row"
    and "find_date_column lib ws = Some date_col"
    and "selected_month months_csv year
           (map snd (dated_rows lib ws date_col (data_start_row lib ws param_row))) =
         (sel_month, sel_year)"
    and "selected_columns lib ws param_row date_col
           (map (\<lambda>(d, r, cells). (r, d)) (out_table out)) = cols"
  shows
    "(month_tokens months_csv \<noteq> [] \<longrightarrow>
        sel_month = last (month_tokens months_csv) \<and> sel_year = year) \<and>
     (month_tokens months_csv = [] \<longrightarrow>
        (\<exists>r' d'. data_start_row lib ws param_row \<le> r' \<and> r' \<le> max_row ws \<and>
           parse_date_cell lib (cell_value ws r' date_col) = Some d' \<and>
           sel_month = dt_month d' \<and> sel_year = dt_year d' \<and>
           (\<forall>r'' d''. data_start_row lib ws param_row \<le> r'' \<and> r'' \<le> max_row ws \<and>
              parse_date_cell lib (cell_value ws r'' date_col) = Some d'' \<longrightarrow>
              dt_key d'' \<le> dt_key d'))) \<and>
     ((d, r, cells) \<in> set (out_table out) \<longrightarrow>
        data_start_row lib ws param_row \<le> r \<and> r \<le> max_row ws \<and>
        parse_date_cell lib (cell_value ws r date_col) = Some d \<and>
        cells = map (\<lambda>col. cell_value ws r (col_index col)) cols \<and>
        (valid_datetime d \<longrightarrow>
           sel_year * 12 + sel_month - 1 - 5 \<le> month_index d \<and>
           month_index d \<le> sel_year * 12 + sel_month - 1)) \<and>
     (data_start_row lib ws param_row \<le> r \<and> r \<le> max_row ws \<and>
      parse_date_cell lib (cell_value ws r date_col) = Some d \<and>
      valid_datetime d \<and>
      sel_year * 12 + sel_month - 1 - 5 \<le> month_index d \<and>
      month_index d \<le> sel_year * 12 + sel_month - 1 \<and>
      (month_index d < sel_year * 12 + sel_month - 1 \<or>
       dt_day d < days_in_month (dt_year d) (dt_month d) \<or> at_midnight d) \<longrightarrow>
        (\<exists>cs. (d, r, cs) \<in> set (out_table out))) \<and>
     (out_graph1 out = Some g \<and> (k, pts) \<in> set g \<and> (t, w) \<in> set pts \<longrightarrow>
        (\<exists>r' cs col. (t, r', cs) \<in> set (out_table out) \<and> col \<in> set cols \<and> in_g1 col \<and>
           col_label col = k \<and> py_float lib (cell_value ws r' (col_index col)) = Some w)) \<and>
     (out_graph2 out = Some g \<and> (k, pts) \<in> set g \<and> (t, w) \<in> set pts \<longrightarrow>
        (\<exists>r' cs col. (t, r', cs) \<in> set (out_table out) \<and> col \<in> set cols \<and> in_g2 col \<and>
           col_label col = k \<and> py_float lib (cell_value ws r' (col_index col)) = Some w)) \<and>
     ((d, r, cells) \<in> set (out_table out) \<and> col \<in> set cols \<and>
      py_float lib (cell_value ws r (col_index col)) = Some v \<longrightarrow>
        (in_g1 col \<or> in_g2 col) \<and>
        (in_g1 col \<and> distinct (map col_label (filter in_g1 cols)) \<longrightarrow>
           (\<exists>g pts. out_graph1 out = Some g \<and> (col_label col, pts) \<in> set g \<and>
              (d, v) \<in> set pts)) \<and>
        (in_g2 col \<and> distinct (map col_label (filter in_g2 cols)) \<longrightarrow>
           (\<exists>g pts. out_graph2 out = Some g \<and> (col_label col, pts) \<in> set g \<and>
              (d, v) \<in> set pts)))"
proof -
  let ?rows = "dated_rows lib ws date_col (data_start_row lib ws param_row)"
  let ?L = "sel_year * 12 + sel_month - 1"
  from table_then_two_graphs_Some[OF assms(1-4)] obtain start_dt end_dt win cols' where
    ne: "?rows \<noteq> []" and
    wb: "window_bounds sel_year sel_month = Inr (start_dt, end_dt)" and
    win: "win = window_rows start_dt end_dt ?rows" and
    cols': "cols' = selected_columns lib ws param_row date_col win" and
    tab: "out_table out =
       map (\<lambda>(r, dt). (dt, r, map (\<lambda>col. cell_value ws r (col_index col)) cols')) win" and
    g1: "out_graph1 out = group_graph lib ws win (filter in_g1 cols')" and
    g2: "out_graph2 out = group_graph lib ws win (filter in_g2 cols')"
    by blast
  from assms(5) cols' have cc: "cols' = cols" by (simp only: rows_of_out_table[OF tab])
  note tab = tab[unfolded cc] and g1 = g1[unfolded cc] and g2 = g2[unfolded cc]
  obtain sy sm where s: "ym_add sel_year sel_month (- 5) = (sy, sm)"
    by (cases "ym_add sel_year sel_month (- 5)")
  obtain ey em where e: "ym_add sel_year sel_month 0 = (ey, em)"
    by (cases "ym_add sel_year sel_month 0")
  from window_bounds_dates[OF wb s e]
  have sd: "start_dt = DateTime sy sm 1 0 0 0 0"
    and ed: "end_dt = DateTime ey em (days_in_month ey em) 0 0 0 0" by simp_all
  have sr: "1 \<le> sm" "sm \<le> 12" "sy * 12 + sm - 1 = ?L - 5"
    using ym_add_month_range[of sel_year sel_month "- 5"]
      ym_add_index[of sel_year sel_month "- 5"] s by simp_all
  have er: "1 \<le> em" "em \<le> 12" "ey * 12 + em - 1 = ?L"
    using ym_add_month_range[of sel_year sel_month 0]
      ym_add_index[of sel_year sel_month 0] e by simp_all
  have in_win: "(r', d') \<in> set win \<longleftrightarrow>
      data_start_row lib ws param_row \<le> r' \<and> r' \<le> max_row ws \<and>
      parse_date_cell lib (cell_value ws r' date_col) = Some d' \<and>
      dt_le start_dt d' \<and> dt_le d' end_dt" for d' r'
    unfolding win set_window_rows set_dated_rows by simp
  have S1: "month_tokens months_csv \<noteq> [] \<longrightarrow>
        sel_month = last (month_tokens months_csv) \<and> sel_year = year"
    using assms(4) by (auto simp: selected_month_def Let_def)
  have S2: "month_tokens months_csv = [] \<longrightarrow>
        (\<exists>r' d'. data_start_row lib ws param_row \<le> r' \<and> r' \<le> max_row ws \<and>
           parse_date_cell lib (cell_value ws r' date_col) = Some d' \<and>
           sel_month = dt_month d' \<and> sel_year = dt_year d' \<and>
           (\<forall>r'' d''. data_start_row lib ws param_row \<le> r'' \<and> r'' \<le> max_row ws \<and>
              parse_date_cell lib (cell_value ws r'' date_col) = Some d'' \<longrightarrow>
              dt_key d'' \<le> dt_key d'))"
  proof
    assume "month_tokens months_csv = []"
    with assms(4) have sel: "sel_month = dt_month (dt_max (map snd ?rows))"
      "sel_year = dt_year (dt_max (map snd ?rows))"
      by (simp_all add: selected_month_def Let_def)
    from ne have "map snd ?rows \<noteq> []" by simp
    from dt_max_latest[OF this]
    have m: "dt_max (map snd ?rows) \<in> set (map snd ?rows)"
      and u: "\<forall>d \<in> set (map snd ?rows). dt_key d \<le> dt_key (dt_max (map snd ?rows))"
      by simp_all
    from m obtain r' where "(r', dt_max (map snd ?rows)) \<in> set ?rows" by auto
    then have 1: "data_start_row lib ws param_row \<le> r' \<and> r' \<le> max_row ws \<and>
        parse_date_cell lib (cell_value ws r' date_col) = Some (dt_max (map snd ?rows))"
      unfolding set_dated_rows by simp
    have 2: "dt_key d'' \<le> dt_key (dt_max (map snd ?rows))"
      if "data_start_row lib ws param_row \<le> r'' \<and> r'' \<le> max_row ws \<and>
          parse_date_cell lib (cell_value ws r'' date_col) = Some d''" for r'' d''
    proof -
      from that have "(r'', d'') \<in> set ?rows" unfolding set_dated_rows by simp
      then have "d'' \<in> set (map snd ?rows)" by force
      with u show ?thesis by blast
    qed
    from 1 2 sel show "\<exists>r' d'. data_start_row lib ws param_row \<le> r' \<and> r' \<le> max_row ws \<and>
           parse_date_cell lib (cell_value ws r' date_col) = Some d' \<and>
           sel_month = dt_month d' \<and> sel_year = dt_year d' \<and>
           (\<forall>r'' d''. data_start_row lib ws param_row \<le> r'' \<and> r'' \<le> max_row ws \<and>
              parse_date_cell lib (cell_value ws r'' date_col) = Some d'' \<longrightarrow>
              dt_key d'' \<le> dt_key d')"
      by blast
  qed
  have A: "(d, r, cells) \<in> set (out_table out) \<longrightarrow>
        data_start_row lib ws param_row \<le> r \<and> r \<le> max_row ws \<and>
        parse_date_cell lib (cell_value ws r date_col) = Some d \<and>
        cells = map (\<lambda>col. cell_value ws r (col_index col)) cols \<and>
        (valid_datetime d \<longrightarrow> ?L - 5 \<le> month_index d \<and> month_index d \<le> ?L)"
  proof
    assume "(d, r, cells) \<in> set (out_table out)"
    then have rd: "(r, d) \<in> set win"
      and cs: "cells = map (\<lambda>col. cell_value ws r (col_index col)) cols"
      unfolding in_out_table[OF tab] by simp_all
    from rd have m: "data_start_row lib ws param_row \<le> r" "r \<le> max_row ws"
      "parse_date_cell lib (cell_value ws r date_col) = Some d"
      "dt_le start_dt d" "dt_le d end_dt"
      unfolding in_win by simp_all
    have "?L - 5 \<le> month_index d \<and> month_index d \<le> ?L" if v: "valid_datetime d"
    proof -
      from after_month_start[OF v sr(1,2), of sy] m(4) sd sr(3)
      have "?L - 5 \<le> month_index d" by simp
      moreover from v have "1 \<le> dt_month d" "dt_month d \<le> 12"
        by (simp_all add: valid_datetime_def)
      from before_month_end[OF m(5)[unfolded ed] this er(1,2)] er(3)
      have "month_index d \<le> ?L" by simp
      ultimately show ?thesis by simp
    qed
    with m cs show "data_start_row lib ws param_row \<le> r \<and> r \<le> max_row ws \<and>
        parse_date_cell lib (cell_value ws r date_col) = Some d \<and>
        cells = map (\<lambda>col. cell_value ws r (col_index col)) cols \<and>
        (valid_datetime d \<longrightarrow> ?L - 5 \<le> month_index d \<and> month_index d \<le> ?L)"
      by simp
  qed
  have B: "data_start_row lib ws param_row \<le> r \<and> r \<le> max_row ws \<and>
      parse_date_cell lib (cell_value ws r date_col) = Some d \<and>
      valid_datetime d \<and> ?L - 5 \<le> month_index d \<and> month_index d \<le> ?L \<and>
      (month_index d < ?L \<or>
       dt_day d < days_in_month (dt_year d) (dt_month d) \<or> at_midnight d) \<longrightarrow>
        (\<exists>cs. (d, r, cs) \<in> set (out_table out))"
  proof
    assume h: "data_start_row lib ws param_row \<le> r \<and> r \<le> max_row ws \<and>
      parse_date_cell lib (cell_value ws r date_col) = Some d \<and>
      valid_datetime d \<and> ?L - 5 \<le> month_index d \<and> month_index d \<le> ?L \<and>
      (month_index d < ?L \<or>
       dt_day d < days_in_month (dt_year d) (dt_month d) \<or> at_midnight d)"
    then have v: "valid_datetime d"
      and lo: "?L - 5 \<le> month_index d" and hi: "month_index d \<le> ey * 12 + em - 1"
      and c: "month_index d < ey * 12 + em - 1 \<or>
       dt_day d < days_in_month (dt_year d) (dt_month d) \<or> at_midnight d"
      unfolding er(3) by simp_all
    from after_month_start[OF v sr(1,2), of sy] lo sr(3) sd
    have "dt_le start_dt d" by simp
    moreover from midnight_or_earlier_before_month_end[OF v er(1,2) hi c] ed
    have "dt_le d end_dt" by simp
    ultimately have "(r, d) \<in> set win" unfolding in_win using h by simp
    then show "\<exists>cs. (d, r, cs) \<in> set (out_table out)"
      unfolding in_out_table[OF tab] by simp
  qed
  have C: "\<exists>r' cs col. (t, r', cs) \<in> set (out_table out) \<and> col \<in> set cols \<and> P col \<and>
           col_label col = k \<and> py_float lib (cell_value ws r' (col_index col)) = Some w"
    if "group_graph lib ws win (filter P cols) = Some g" "(k, pts) \<in> set g" "(t, w) \<in> set pts"
    for P
  proof -
    from group_graph_points[OF that] obtain r' col where
      "(r', t) \<in> set win" "col \<in> set (filter P cols)" "col_label col = k"
      "py_float lib (cell_value ws r' (col_index col)) = Some w" by blast
    moreover from this(1)
    have "(t, r', map (\<lambda>col. cell_value ws r' (col_index col)) cols) \<in> set (out_table out)"
      unfolding in_out_table[OF tab] by simp
    ultimately show ?thesis by auto
  qed
  have C1: "out_graph1 out = Some g \<and> (k, pts) \<in> set g \<and> (t, w) \<in> set pts \<longrightarrow>
        (\<exists>r' cs col. (t, r', cs) \<in> set (out_table out) \<and> col \<in> set cols \<and> in_g1 col \<and>
           col_label col = k \<and> py_float lib (cell_value ws r' (col_index col)) = Some w)"
    using C[of in_g1] unfolding g1 by blast
  have C2: "out_graph2 out = Some g \<and> (k, pts) \<in> set g \<and> (t, w) \<in> set pts \<longrightarrow>
        (\<exists>r' cs col. (t, r', cs) \<in> set (out_table out) \<and> col \<in> set cols \<and> in_g2 col \<and>
           col_label col = k \<and> py_float lib (cell_value ws r' (col_index col)) = Some w)"
    using C[of in_g2] unfolding g2 by blast
  have D: "(d, r, cells) \<in> set (out_table out) \<and> col \<in> set cols \<and>
      py_float lib (cell_value ws r (col_index col)) = Some v \<longrightarrow>
        (in_g1 col \<or> in_g2 col) \<and>
        (in_g1 col \<and> distinct (map col_label (filter in_g1 cols)) \<longrightarrow>
           (\<exists>g pts. out_graph1 out = Some g \<and> (col_label col, pts) \<in> set g \<and>
              (d, v) \<in> set pts)) \<and>
        (in_g2 col \<and> distinct (map col_label (filter in_g2 cols)) \<longrightarrow>
           (\<exists>g pts. out_graph2 out = Some g \<and> (col_label col, pts) \<in> set g \<and>
              (d, v) \<in> set pts))"
  proof
    assume h: "(d, r, cells) \<in> set (out_table out) \<and> col \<in> set cols \<and>
      py_float lib (cell_value ws r (col_index col)) = Some v"
    then have rd: "(r, d) \<in> set win" unfolding in_out_table[OF tab] by simp
    from h have col: "col \<in> set cols"
      and fv: "py_float lib (cell_value ws r (col_index col)) = Some v" by simp_all
    from col have grp: "in_g1 col \<or> in_g2 col"
      unfolding cc[symmetric] cols' by (rule selected_columns_grouped)
    have incl: "\<exists>g pts. group_graph lib ws win (filter P cols) = Some g \<and>
        (col_label col, pts) \<in> set g \<and> (d, v) \<in> set pts"
      if "P col" "distinct (map col_label (filter P cols))" for P
    proof -
      from col that(1) have "col \<in> set (filter P cols)" by simp
      from group_graph_includes[OF that(2) this rd fv] show ?thesis .
    qed
    from grp incl[of in_g1] incl[of in_g2]
    show "(in_g1 col \<or> in_g2 col) \<and>
        (in_g1 col \<and> distinct (map col_label (filter in_g1 cols)) \<longrightarrow>
           (\<exists>g pts. out_graph1 out = Some g \<and> (col_label col, pts) \<in> set g \<and>
              (d, v) \<in> set pts)) \<and>
        (in_g2 col \<and> distinct (map col_label (filter in_g2 cols)) \<longrightarrow>
           (\<exists>g pts. out_graph2 out = Some g \<and> (col_label col, pts) \<in> set g \<and>
              (d, v) \<in> set pts))"
      unfolding g1 g2 by blast
  qed
  from S1 S2 A B C1 C2 D show ?thesis by (intro conjI)
qed

text \<open>
  Claim C1 as stated fails: with the months 7 to 11 of 2024 on the command line, the row
  dated 30 June 2024, one day before the first of these months, is in the table and in
  the chart; the row of 1 December is not.
\<close>

theorem out_of_window_row_in_table:
  "table_then_two_graphs failing_lib
     (sheet_of_rows
        [[CStr ''Date'', CStr ''cBOD5'', CStr ''TSS''],
         [CDateTime (DateTime 2024 6 30 0 0 0 0), CInt 5, CInt 12],
         [CDateTime (DateTime 2024 8 15 0 0 0 0), CInt 6, CInt 9],
         [CDateTime (DateTime 2024 12 1 0 0 0 0), CInt 7, CInt 3]])
     ''7,8,9,10,11'' 2024 =
   Inr (Some
     \<lparr>out_headers = [''Date'', ''cBOD5'', ''TSS''],
      out_table =
        [(DateTime 2024 6 30 0 0 0 0, 2, [CInt 5, CInt 12]),
         (DateTime 2024 8 15 0 0 0 0, 3, [CInt 6, CInt 9])],
      out_graph1 =
        Some [(''cBOD5'', [(DateTime 2024 6 30 0 0 0 0, 5), (DateTime 2024 8 15 0 0 0 0, 6)]),
              (''TSS'', [(DateTime 2024 6 30 0 0 0 0, 12), (DateTime 2024 8 15 0 0 0 0, 9)])],
      out_graph2 = None\<rparr>) \<and>
   month_tokens ''7,8,9,10,11'' = [7, 8, 9, 10, 11] \<and>
   dt_month (DateTime 2024 6 30 0 0 0 0) \<notin> set (month_tokens ''7,8,9,10,11'')"
  by code_simp

text \<open>
  The months 7 to 11 of 2024 again: the rows of 1 June, of 15 August at 10:30 and of
  30 November are in the table and in the charts, the row of 31 May is not, and June is
  the first of the six months.
\<close>

theorem table_rows_in_lookback_window_witness:
  "table_then_two_graphs failing_lib
     (sheet_of_rows
        [[CStr ''Date'', CStr ''cBOD5'', CStr ''TKN''],
         [CDateTime (DateTime 2024 5 31 0 0 0 0), CInt 4, CInt 2],
         [CDateTime (DateTime 2024 6 1 0 0 0 0), CInt 5, CInt 1],
         [CDateTime (DateTime 2024 8 15 10 30 0 0), CInt 7, CInt 4],
         [CDateTime (DateTime 2024 11 30 0 0 0 0), CInt 6, CInt 3]])
     ''7,8,9,10,11'' 2024 =
   Inr (Some
     \<lparr>out_headers = [''Date'', ''cBOD5'', ''TKN''],
      out_table =
        [(DateTime 2024 6 1 0 0 0 0, 3, [CInt 5, CInt 1]),
         (DateTime 2024 8 15 10 30 0 0, 4, [CInt 7, CInt 4]),
         (DateTime 2024 11 30 0 0 0 0, 5, [CInt 6, CInt 3])],
      out_graph1 =
        Some [(''cBOD5'', [(DateTime 2024 6 1 0 0 0 0, 5), (DateTime 2024 8 15 10 30 0 0, 7),
                           (DateTime 2024 11 30 0 0 0 0, 6)])],
      out_graph2 =
        Some [(''TKN'', [(DateTime 2024 6 1 0 0 0 0, 1), (DateTime 2024 8 15 10 30 0 0, 4),
                         (DateTime 2024 11 30 0 0 0 0, 3)])]\<rparr>) \<and>
   11 = last (month_tokens ''7,8,9,10,11'') \<and>
   2024 * 12 + 11 - 1 - 5 \<le> month_index (DateTime 2024 8 15 10 30 0 0) \<and>
   month_index (DateTime 2024 8 15 10 30 0 0) \<le> 2024 * 12 + 11 - 1 \<and>
   \<not> at_midnight (DateTime 2024 8 15 10 30 0 0) \<and>
   (\<exists>cs. (DateTime 2024 8 15 10 30 0 0, 4, cs) \<in> set (out_table
     \<lparr>out_headers = [''Date'', ''cBOD5'', ''TKN''],
      out_table =
        [(DateTime 2024 6 1 0 0 0 0, 3, [CInt 5, CInt 1]),
         (DateTime 2024 8 15 10 30 0 0, 4, [CInt 7, CInt 4]),
         (DateTime 2024 11 30 0 0 0 0, 5, [CInt 6, CInt 3])],
      out_graph1 =
        Some [(''cBOD5'', [(DateTime 2024 6 1 0 0 0 0, 5), (DateTime 2024 8 15 10 30 0 0, 7),
                           (DateTime 2024 11 30 0 0 0 0, 6)])],
      out_graph2 =
        Some [(''TKN'', [(DateTime 2024 6 1 0 0 0 0, 1), (DateTime 2024 8 15 10 30 0 0, 4),
                         (DateTime 2024 11 30 0 0 0 0, 3)])]\<rparr>)) \<and>
   (\<exists>g pts. out_graph1
     \<lparr>out_headers = [''Date'', ''cBOD5'', ''TKN''],
      out_table =
        [(DateTime 2024 6 1 0 0 0 0, 3, [CInt 5, CInt 1]),
         (DateTime 2024 8 15 10 30 0 0, 4, [CInt 7, CInt 4]),
         (DateTime 2024 11 30 0 0 0 0, 5, [CInt 6, CInt 3])],
      out_graph1 =
        Some [(''cBOD5'', [(DateTime 2024 6 1 0 0 0 0, 5), (DateTime 2024 8 15 10 30 0 0, 7),
                           (DateTime 2024 11 30 0 0 0 0, 6)])],
      out_graph2 =
        Some [(''TKN'', [(DateTime 2024 6 1 0 0 0 0, 1), (DateTime 2024 8 15 10 30 0 0, 4),
                         (DateTime 2024 11 30 0 0 0 0, 3)])]\<rparr> = Some g \<and>
      (''cBOD5'', pts) \<in> set g \<and> (DateTime 2024 8 15 10 30 0 0, 7) \<in> set pts) \<and>
   (\<exists>r' cs. (DateTime 2024 11 30 0 0 0 0, r', cs) \<in> set (out_table
     \<lparr>out_headers = [''Date'', ''cBOD5'', ''TKN''],
      out_table =
        [(DateTime 2024 6 1 0 0 0 0, 3, [CInt 5, CInt 1]),
         (DateTime 2024 8 15 10 30 0 0, 4, [CInt 7, CInt 4]),
         (DateTime 2024 11 30 0 0 0 0, 5, [CInt 6, CInt 3])],
      out_graph1 =
        Some [(''cBOD5'', [(DateTime 2024 6 1 0 0 0 0, 5), (DateTime 2024 8 15 10 30 0 0, 7),
                           (DateTime 2024 11 30 0 0 0 0, 6)])],
      out_graph2 =
        Some [(''TKN'', [(DateTime 2024 6 1 0 0 0 0, 1), (DateTime 2024 8 15 10 30 0 0, 4),
                         (DateTime 2024 11 30 0 0 0 0, 3)])]\<rparr>))"
  (is "table_then_two_graphs _ ?ws _ _ = Inr (Some ?out) \<and> _")
proof -
  let ?d = "DateTime 2024 8 15 10 30 0 0"
  let ?cols = "[\<lparr>col_index = 2, col_label = ''cBOD5'', in_g1 = True, in_g2 = False\<rparr>,
                \<lparr>col_index = 3, col_label = ''TKN'', in_g1 = False, in_g2 = True\<rparr>]"
  have h1: "table_then_two_graphs failing_lib ?ws ''7,8,9,10,11'' 2024 = Inr (Some ?out)"
    by code_simp
  have h2: "find_param_header_row failing_lib ?ws = Some 1" by code_simp
  have h3: "find_date_column failing_lib ?ws = Some 1" by code_simp
  have h4: "selected_month ''7,8,9,10,11'' 2024
           (map snd (dated_rows failing_lib ?ws 1 (data_start_row failing_lib ?ws 1))) =
         (11, 2024)"
    by code_simp
  have h5: "selected_columns failing_lib ?ws 1 1
           (map (\<lambda>(d, r, cells). (r, d)) (out_table ?out)) = ?cols"
    by code_simp
  note T = table_rows_in_lookback_window [OF h1 h2 h3 h4 h5,
      where d = ?d and r = 4 and cells = "[CInt 7, CInt 4]" and v = 7
        and col = "\<lparr>col_index = 2, col_label = ''cBOD5'', in_g1 = True, in_g2 = False\<rparr>"
        and g = "[(''TKN'', [(DateTime 2024 6 1 0 0 0 0, 1), (DateTime 2024 8 15 10 30 0 0, 4),
                            (DateTime 2024 11 30 0 0 0 0, 3)])]"
        and k = "''TKN''"
        and pts = "[(DateTime 2024 6 1 0 0 0 0, 1), (DateTime 2024 8 15 10 30 0 0, 4),
                    (DateTime 2024 11 30 0 0 0 0, 3)]"
        and t = "DateTime 2024 11 30 0 0 0 0" and w = 3]
  have tk: "month_tokens ''7,8,9,10,11'' \<noteq> []" by code_simp
  have m: "(?d, 4, [CInt 7, CInt 4]) \<in> set (out_table ?out)" by simp
  have v: "valid_datetime ?d" by (simp add: valid_datetime_def days_in_month_def)
  have nm: "\<not> at_midnight ?d" by (simp add: at_midnight_def)
  have dr: "data_start_row failing_lib ?ws 1 \<le> 4 \<and> 4 \<le> max_row ?ws \<and>
      parse_date_cell failing_lib (cell_value ?ws 4 1) = Some ?d" by code_simp
  have lt: "month_index ?d < 2024 * 12 + 11 - 1" by (simp add: month_index_def)
  from T tk have s: "11 = last (month_tokens ''7,8,9,10,11'')" by blast
  from T m v have w: "2024 * 12 + 11 - 1 - 5 \<le> month_index ?d \<and>
      month_index ?d \<le> 2024 * 12 + 11 - 1" by blast
  from T dr v w lt have i: "\<exists>cs. (?d, 4, cs) \<in> set (out_table ?out)" by blast
  have c: "\<lparr>col_index = 2, col_label = ''cBOD5'', in_g1 = True, in_g2 = False\<rparr> \<in> set ?cols \<and>
      py_float failing_lib (cell_value ?ws 4
        (col_index \<lparr>col_index = 2, col_label = ''cBOD5'', in_g1 = True, in_g2 = False\<rparr>)) = Some 7 \<and>
      in_g1 \<lparr>col_index = 2, col_label = ''cBOD5'', in_g1 = True, in_g2 = False\<rparr> \<and>
      distinct (map col_label (filter in_g1 ?cols))" by code_simp
  from T m c have p: "\<exists>g pts. out_graph1 ?out = Some g \<and>
      (col_label \<lparr>col_index = 2, col_label = ''cBOD5'', in_g1 = True, in_g2 = False\<rparr>, pts)
        \<in> set g \<and> (?d, 7) \<in> set pts" by blast
  have q: "out_graph2 ?out =
      Some [(''TKN'', [(DateTime 2024 6 1 0 0 0 0, 1), (DateTime 2024 8 15 10 30 0 0, 4),
                            (DateTime 2024 11 30 0 0 0 0, 3)])] \<and>
      (''TKN'', [(DateTime 2024 6 1 0 0 0 0, 1), (DateTime 2024 8 15 10 30 0 0, 4),
                    (DateTime 2024 11 30 0 0 0 0, 3)]) \<in>
        set [(''TKN'', [(DateTime 2024 6 1 0 0 0 0, 1), (DateTime 2024 8 15 10 30 0 0, 4),
                            (DateTime 2024 11 30 0 0 0 0, 3)])] \<and>
      (DateTime 2024 11 30 0 0 0 0, 3) \<in>
        set [(DateTime 2024 6 1 0 0 0 0, 1), (DateTime 2024 8 15 10 30 0 0, 4),
                    (DateTime 2024 11 30 0 0 0 0, 3 :: real)]" by simp
  from T q have u: "\<exists>r' cs. (DateTime 2024 11 30 0 0 0 0, r', cs) \<in> set (out_table ?out)"
    by blast
  from p have p': "\<exists>g pts. out_graph1 ?out = Some g \<and> (''cBOD5'', pts) \<in> set g \<and>
      (?d, 7) \<in> set pts" by simp
  from w have w1: "2024 * 12 + 11 - 1 - 5 \<le> month_index ?d"
    and w2: "month_index ?d \<le> 2024 * 12 + 11 - 1" by blast+
  from h1 s w1 w2 nm i p' u show ?thesis by (intro conjI)
qed

text \<open>
  Claim C4, evaluated on the code. For the reference month March 2024 the bounds are
  1 October 2023 and 31 March 2024, both at midnight (in general, lemma
  \<open>six_month_window\<close>), and the comparison \<^verbatim>\<open>d <= end_dt\<close> drops a row of the last day
  that carries a time: of the rows dated 1 October 2023, 31 March 2024 at 00:00 and
  31 March 2024 at 10:30, only the first two are in the table.
\<close>

theorem last_day_row_with_time_dropped:
  "window_bounds 2024 3 =
     Inr (DateTime 2023 10 1 0 0 0 0, DateTime 2024 3 31 0 0 0 0) \<and>
   table_then_two_graphs failing_lib
     (sheet_of_rows
        [[CStr ''Date'', CStr ''cBOD5'', CStr ''TSS''],
         [CDateTime (DateTime 2023 10 1 0 0 0 0), CInt 5, CInt 12],
         [CDateTime (DateTime 2024 3 31 0 0 0 0), CInt 6, CInt 9],
         [CDateTime (DateTime 2024 3 31 10 30 0 0), CInt 7, CInt 3]])
     ''3'' 2024 =
   Inr (Some
     \<lparr>out_headers = [''Date'', ''cBOD5'', ''TSS''],
      out_table =
        [(DateTime 2023 10 1 0 0 0 0, 2, [CInt 5, CInt 12]),
         (DateTime 2024 3 31 0 0 0 0, 3, [CInt 6, CInt 9])],
      out_graph1 =
        Some [(''cBOD5'', [(DateTime 2023 10 1 0 0 0 0, 5), (DateTime 2024 3 31 0 0 0 0, 6)]),
              (''TSS'', [(DateTime 2023 10 1 0 0 0 0, 12), (DateTime 2024 3 31 0 0 0 0, 9)])],
      out_graph2 = None\<rparr>)"
  by code_simp

lemma six_month_window:
  assumes "window_bounds sel_year sel_month = Inr (start_dt, end_dt)"
  shows "at_midnight start_dt \<and> dt_day start_dt = 1 \<and>
         month_index start_dt = sel_year * 12 + sel_month - 1 - 5 \<and>
         at_midnight end_dt \<and>
         dt_day end_dt = days_in_month (dt_year end_dt) (dt_month end_dt) \<and>
         month_index end_dt = sel_year * 12 + sel_month - 1"
proof -
  obtain sy sm where s: "ym_add sel_year sel_month (- 5) = (sy, sm)"
    by (cases "ym_add sel_year sel_month (- 5)")
  obtain ey em where e: "ym_add sel_year sel_month 0 = (ey, em)"
    by (cases "ym_add sel_year sel_month 0")
  from window_bounds_dates[OF assms s e] ym_add_index[of sel_year sel_month "- 5"]
    ym_add_index[of sel_year sel_month 0] s e
  show ?thesis by (simp add: at_midnight_def month_index_def)
qed

end
